theory Spec2Isabelle
  imports Complex_Main "HOL-Library.Word"
begin

section \<open>Python values and failures\<close>

text \<open>
  The engine is Python on NumPy. Positions, ask sizes and limits are Python integers and
  are modelled as \<open>int\<close>. The backlog and the inventory are Python integers until the first
  release and NumPy \<open>int64\<close> scalars afterwards (\<open>npint\<close> below). Prices, cash and fees are
  finite doubles whose arithmetic is taken exactly (\<open>real\<close>); the one double product a
  property depends on, \<open>asks[i] * penalty_mult\<close>, is not computed by the model but taken
  from outside (\<open>float_mul\<close> below). Every exception a modelled function can raise is a
  value of \<open>error\<close>, returned as \<open>Inl\<close>; a normal return is \<open>Inr\<close>. \<open>NotModelled\<close> marks
  the one place where the model stops although the program goes on: a Python integer
  outside the \<open>int64\<close> range meeting a NumPy scalar.
\<close>

datatype error =
  IndexError | ZeroDivisionError | AttributeError | KeyError | ValueError | OverflowError
  | NotModelled

definition bindE :: "error + 'a \<Rightarrow> ('a \<Rightarrow> error + 'b) \<Rightarrow> error + 'b" where
  "bindE m f = (case m of Inl e \<Rightarrow> Inl e | Inr x \<Rightarrow> f x)"

text \<open>A \<open>for\<close> loop whose body may raise: the first exception ends the loop.\<close>

fun foldE :: "('a \<Rightarrow> 'b \<Rightarrow> error + 'b) \<Rightarrow> 'a list \<Rightarrow> 'b \<Rightarrow> error + 'b" where
  "foldE f [] s = Inr s"
| "foldE f (x # xs) s = (case f x s of Inl e \<Rightarrow> Inl e | Inr s' \<Rightarrow> foldE f xs s')"

text \<open>A comprehension or a loop that maps a function which may raise.\<close>

fun mapE :: "('a \<Rightarrow> error + 'b) \<Rightarrow> 'a list \<Rightarrow> error + 'b list" where
  "mapE f [] = Inr []"
| "mapE f (x # xs) = bindE (f x) (\<lambda>y. bindE (mapE f xs) (\<lambda>ys. Inr (y # ys)))"

text \<open>\<open>xs[i]\<close> for a non-negative index, and \<open>xs[i] = v\<close>.\<close>

definition getitem :: "'a list \<Rightarrow> nat \<Rightarrow> error + 'a" where
  "getitem xs i = (if i < length xs then Inr (xs ! i) else Inl IndexError)"

definition setitem :: "'a list \<Rightarrow> nat \<Rightarrow> 'a \<Rightarrow> error + 'a list" where
  "setitem xs i v = (if i < length xs then Inr (xs[i := v]) else Inl IndexError)"

subsection \<open>Floats\<close>

text \<open>
  A Python float: a finite double, an infinity or NaN. The comparisons \<open>x != 0\<close> and
  \<open>x > 0\<close> follow IEEE: NaN differs from 0 and is not greater than 0. \<open>int(x)\<close> truncates
  a finite float toward zero and raises \<open>OverflowError\<close> on an infinity and \<open>ValueError\<close>
  on NaN.
\<close>

datatype pyfloat = Finite real | PosInf | NegInf | NaN

definition float_ne0 :: "pyfloat \<Rightarrow> bool" where
  "float_ne0 x = (case x of Finite r \<Rightarrow> r \<noteq> 0 | PosInf \<Rightarrow> True | NegInf \<Rightarrow> True | NaN \<Rightarrow> True)"

definition float_gt0 :: "pyfloat \<Rightarrow> bool" where
  "float_gt0 x = (case x of Finite r \<Rightarrow> r > 0 | PosInf \<Rightarrow> True | NegInf \<Rightarrow> False | NaN \<Rightarrow> False)"

definition py_int :: "pyfloat \<Rightarrow> error + int" where
  "py_int x =
     (case x of
        Finite r \<Rightarrow> Inr (if 0 \<le> r then \<lfloor>r\<rfloor> else \<lceil>r\<rceil>)
      | PosInf \<Rightarrow> Inl OverflowError
      | NegInf \<Rightarrow> Inl OverflowError
      | NaN \<Rightarrow> Inl ValueError)"

subsection \<open>Python integers and NumPy int64 scalars\<close>

text \<open>
  \<open>np.sign\<close> returns a NumPy \<open>int64\<close>, and arithmetic between a Python integer and an
  \<open>int64\<close> scalar gives an \<open>int64\<close> scalar that wraps around on overflow. A value is
  therefore a Python integer or a 64-bit word read as signed. Where a Python integer
  outside the \<open>int64\<close> range meets a NumPy scalar or \<open>np.sign\<close>, NumPy takes another path
  (an \<open>OverflowError\<close>, or a \<open>uint64\<close>, float or object result, depending on the value and
  the version): the model stops there with \<open>NotModelled\<close>.
\<close>

datatype npint = PyInt int | Int64 "64 word"

definition np_val :: "npint \<Rightarrow> int" where
  "np_val a = (case a of PyInt n \<Rightarrow> n | Int64 w \<Rightarrow> sint w)"

definition in_int64 :: "int \<Rightarrow> bool" where
  "in_int64 n \<longleftrightarrow> - (2 ^ 63) \<le> n \<and> n < 2 ^ 63"

definition as_int64 :: "npint \<Rightarrow> error + 64 word" where
  "as_int64 a =
     (case a of
        PyInt n \<Rightarrow> if in_int64 n then Inr (word_of_int n) else Inl NotModelled
      | Int64 w \<Rightarrow> Inr w)"

definition np_add :: "npint \<Rightarrow> npint \<Rightarrow> error + npint" where
  "np_add a b =
     (case (a, b) of
        (PyInt x, PyInt y) \<Rightarrow> Inr (PyInt (x + y))
      | _ \<Rightarrow> bindE (as_int64 a) (\<lambda>x. bindE (as_int64 b) (\<lambda>y. Inr (Int64 (x + y)))))"

definition np_sub :: "npint \<Rightarrow> npint \<Rightarrow> error + npint" where
  "np_sub a b =
     (case (a, b) of
        (PyInt x, PyInt y) \<Rightarrow> Inr (PyInt (x - y))
      | _ \<Rightarrow> bindE (as_int64 a) (\<lambda>x. bindE (as_int64 b) (\<lambda>y. Inr (Int64 (x - y)))))"

definition np_mul :: "npint \<Rightarrow> npint \<Rightarrow> error + npint" where
  "np_mul a b =
     (case (a, b) of
        (PyInt x, PyInt y) \<Rightarrow> Inr (PyInt (x * y))
      | _ \<Rightarrow> bindE (as_int64 a) (\<lambda>x. bindE (as_int64 b) (\<lambda>y. Inr (Int64 (x * y)))))"

text \<open>\<open>abs\<close>: exact on a Python integer; on \<open>int64\<close> the least value is its own negation.\<close>

definition np_abs :: "npint \<Rightarrow> npint" where
  "np_abs a = (case a of PyInt n \<Rightarrow> PyInt \<bar>n\<bar> | Int64 w \<Rightarrow> Int64 (if sint w < 0 then - w else w))"

definition np_sign :: "npint \<Rightarrow> error + npint" where
  "np_sign a =
     (case a of
        PyInt n \<Rightarrow> if in_int64 n then Inr (Int64 (word_of_int (sgn n))) else Inl NotModelled
      | Int64 w \<Rightarrow> Inr (Int64 (word_of_int (sgn (sint w)))))"

text \<open>\<open>min(a, b)\<close> keeps \<open>a\<close> unless \<open>b < a\<close>; the comparison is by value.\<close>

definition py_min :: "npint \<Rightarrow> npint \<Rightarrow> npint" where
  "py_min a b = (if np_val b < np_val a then b else a)"

section \<open>aimd.py: the position ledger\<close>

record position =
  num_strats :: int
  inventory_limit :: int
  trade_limit :: int
  pos :: "int list"

text \<open>\<open>Position.__init__\<close>: the arguments are stored as given; \<open>[0] * n\<close> is empty for
  \<open>n \<le> 0\<close>.\<close>

definition Position_init :: "int \<Rightarrow> int \<Rightarrow> int \<Rightarrow> position" where
  "Position_init n inv_lim tr_lim =
     \<lparr>num_strats = n, inventory_limit = inv_lim, trade_limit = tr_lim, pos = replicate (nat n) 0\<rparr>"

text \<open>
  \<open>Position.normalize\<close>. The loop visits the indices in order and iteration \<open>i\<close> reads and
  writes only \<open>pos[i]\<close>, so it is a recursion over the list carrying \<open>current_limit\<close>.
  The \<open>elif\<close> is kept with its own test; when neither test holds the entry and the counter
  stay as they are.
\<close>

fun normalize_loop :: "int \<Rightarrow> int \<Rightarrow> int list \<Rightarrow> int list" where
  "normalize_loop il current_limit [] = []"
| "normalize_loop il current_limit (p # ps) =
     (if current_limit + \<bar>p\<bar> > il
      then ((il - current_limit) * (if p > 0 then 1 else - 1)) # normalize_loop il il ps
      else if current_limit + \<bar>p\<bar> \<le> il
      then p # normalize_loop il (current_limit + \<bar>p\<bar>) ps
      else p # normalize_loop il current_limit ps)"

definition normalize :: "int \<Rightarrow> int list \<Rightarrow> int list" where
  "normalize il ps = normalize_loop il 0 ps"

text \<open>
  One iteration of the loop of \<open>Position.update_position\<close> on slot \<open>i\<close>: from the running
  \<open>direction\<close>, the signed request \<open>asks[i]\<close> and \<open>pos[i]\<close> to the new direction, the new
  \<open>pos[i]\<close> and the new \<open>aimd[i]\<close> (which starts at 0). The source also sets \<open>asks[i] = 0\<close>
  in two branches; that local list is not read again after iteration \<open>i\<close>.
\<close>

definition update_slot :: "int \<Rightarrow> int \<Rightarrow> int \<Rightarrow> int \<times> int \<times> int" where
  "update_slot direction ask p =
     (if ask * p < 0 then (direction, 0, 1)
      else if direction \<noteq> 0 then
        (if ask * direction > 0 \<and> p = 0 then (direction, p + ask, 0)
         else if p * direction < 0 then (direction, 0, 1)
         else (direction, p, 0))
      else ((if ask > 0 then 1 else if ask < 0 then - 1
             else if p > 0 then 1 else if p < 0 then - 1 else 0),
            p + ask, 0))"

text \<open>
  The loop \<open>for i in range(len(signals))\<close> once \<open>asks\<close> is known to have one entry per
  signal: it runs along the requests, raises \<open>IndexError\<close> at \<open>pos[i]\<close> when the position
  list is shorter, and leaves the positions beyond the last signal as they are. The result
  is the position list before normalisation and the flags \<open>aimd\<close>.
\<close>

fun update_loop :: "int \<Rightarrow> int list \<Rightarrow> int list \<Rightarrow> error + (int list \<times> int list)" where
  "update_loop direction [] ps = Inr (ps, [])"
| "update_loop direction (a # rest) [] = Inl IndexError"
| "update_loop direction (a # rest) (p # ps) =
     (case update_slot direction a p of (d', p', f) \<Rightarrow>
        (case update_loop d' rest ps of
           Inl e \<Rightarrow> Inl e
         | Inr (ps', fs) \<Rightarrow> Inr (p' # ps', f # fs)))"

text \<open>
  \<open>Position.update_position\<close>. The comprehension reads \<open>signals[i]\<close> for every index of
  \<open>asks_abs\<close>, the loop reads \<open>asks[i]\<close> for every index of \<open>signals\<close>; either raises
  \<open>IndexError\<close> when the other list is shorter. \<open>self.pos\<close> is assigned only at the end, so
  a raising call leaves the ledger untouched. Returns the ledger, \<open>trades_to_execute\<close> and
  \<open>aimd\<close>.
\<close>

definition update_position ::
  "position \<Rightarrow> int list \<Rightarrow> int list \<Rightarrow> error + (position \<times> int \<times> int list)" where
  "update_position P signals asks_abs =
     (if length signals < length asks_abs then Inl IndexError
      else let asks = map2 (*) asks_abs signals in
        if length asks < length signals then Inl IndexError
        else (case update_loop 0 asks (pos P) of
                Inl e \<Rightarrow> Inl e
              | Inr (ps, aimd) \<Rightarrow>
                  let new_pos = normalize (inventory_limit P) ps in
                  Inr (P\<lparr>pos := new_pos\<rparr>, sum_list new_pos - sum_list (pos P), aimd)))"

definition reset_position :: "position \<Rightarrow> position" where
  "reset_position P = P\<lparr>pos := replicate (nat (num_strats P)) 0\<rparr>"

section \<open>aimd.py: the AIMD ask sizer\<close>

record asks_state =
  asks_num_strats :: int
  asks :: "int list"
  reward_add :: int
  penalty_mult :: pyfloat

definition Asks_init :: "int \<Rightarrow> int \<Rightarrow> int \<Rightarrow> pyfloat \<Rightarrow> asks_state" where
  "Asks_init n initial_ask ra pm =
     \<lparr>asks_num_strats = n, asks = replicate (nat n) initial_ask,
      reward_add = ra, penalty_mult = pm\<rparr>"

text \<open>
  \<open>Asks.update\<close>, iteration \<open>i\<close>: \<open>last_traded_pnl[i]\<close> is always read, \<open>aimd[i]\<close> only when
  the PnL is not zero (\<open>and\<close> short-circuits). \<open>fm\<close> is the product
  \<open>self.asks[i] * self.penalty_mult\<close> of a Python integer and a float as the runtime
  computes it: the conversion of the integer to a double (which raises on an integer too
  large) followed by the rounded double multiplication.
\<close>

definition aimd_step ::
  "(int \<Rightarrow> pyfloat \<Rightarrow> error + pyfloat) \<Rightarrow> int \<Rightarrow> pyfloat \<Rightarrow> pyfloat list \<Rightarrow> int list \<Rightarrow> nat
     \<Rightarrow> int list \<Rightarrow> error + int list" where
  "aimd_step fm ra pm last_traded_pnl aimd i xs =
     bindE (getitem last_traded_pnl i) (\<lambda>pnl.
       if float_ne0 pnl then
         bindE (getitem aimd i) (\<lambda>flag.
           if flag = 1 then
             (if float_gt0 pnl then Inr (xs[i := xs ! i + ra])
              else bindE (fm (xs ! i) pm) (\<lambda>product.
                     bindE (py_int product) (\<lambda>k. Inr (xs[i := max 1 k]))))
           else Inr xs)
       else Inr xs)"

definition update ::
  "(int \<Rightarrow> pyfloat \<Rightarrow> error + pyfloat) \<Rightarrow> asks_state \<Rightarrow> pyfloat list \<Rightarrow> int list
     \<Rightarrow> error + asks_state" where
  "update fm A last_traded_pnl aimd =
     bindE (foldE (aimd_step fm (reward_add A) (penalty_mult A) last_traded_pnl aimd)
              [0..<length (asks A)] (asks A))
       (\<lambda>xs. Inr (A\<lparr>asks := xs\<rparr>))"

section \<open>utils.py and the tick record\<close>

text \<open>A \<open>datetime.time\<close> and \<open>time_to_seconds\<close>; a tick is the row \<open>{Time, Price}\<close>.\<close>

record pytime =
  hour :: nat
  minute :: nat
  second :: nat

definition time_to_seconds :: "pytime \<Rightarrow> int" where
  "time_to_seconds t = int (hour t) * 3600 + int (minute t) * 60 + int (second t)"

record tick =
  Time :: pytime
  Price :: real

section \<open>strategy.py: the collaborators\<close>

text \<open>
  What the orchestrator takes from outside. It calls seven operations on each strategy
  object: a strategy is any state type \<open>'s\<close> with these operations; each returns the
  mutated object, the checks also their boolean, and each may raise. And it uses two
  floating-point primitives of the runtime whose rounding the model does not compute:
  the product of a Python integer and a float (\<open>float_mul\<close>, raising when the integer
  has no double), and \<open>round(x, n)\<close> on a finite float (\<open>float_round\<close>).
\<close>

record 's externals =
  op_update_indicators :: "tick \<Rightarrow> 's \<Rightarrow> error + 's"
  op_check_long_entry :: "'s \<Rightarrow> error + (bool \<times> 's)"
  op_check_short_entry :: "'s \<Rightarrow> error + (bool \<times> 's)"
  op_check_long_exit :: "'s \<Rightarrow> error + (bool \<times> 's)"
  op_check_short_exit :: "'s \<Rightarrow> error + (bool \<times> 's)"
  op_update_position :: "int \<Rightarrow> real \<Rightarrow> 's \<Rightarrow> error + 's"
  op_reset :: "'s \<Rightarrow> error + 's"
  float_mul :: "int \<Rightarrow> pyfloat \<Rightarrow> error + pyfloat"
  float_round :: "real \<Rightarrow> nat \<Rightarrow> real"

text \<open>
  The classes of strategy.py: the base class and the three example strategies, as one
  object type with its class tag. \<open>current_tick\<close> is \<open>{}\<close> (here \<open>None\<close>) until the first
  \<open>update_indicators\<close>; reading \<open>current_tick['Time']\<close> before that raises \<open>KeyError\<close>.
  \<open>trade_count\<close> exists on \<open>Strategy_C\<close> only and is carried as 0 elsewhere.
\<close>

datatype strategy_class = Strategy | Strategy_A | Strategy_B | Strategy_C

record strategy =
  cls :: strategy_class
  tp :: real
  sl :: real
  entry_price :: real
  current_tick :: "tick option"
  trade_count :: int

definition Strategy_init :: "strategy_class \<Rightarrow> real \<Rightarrow> real \<Rightarrow> strategy" where
  "Strategy_init c take_profit stop_loss =
     \<lparr>cls = c, tp = take_profit, sl = stop_loss, entry_price = 0, current_tick = None,
      trade_count = 0\<rparr>"

definition strategy_reset :: "strategy \<Rightarrow> error + strategy" where
  "strategy_reset st =
     Inr (if cls st = Strategy_C then st\<lparr>entry_price := 0, trade_count := 0\<rparr>
          else st\<lparr>entry_price := 0\<rparr>)"

definition strategy_update_indicators :: "tick \<Rightarrow> strategy \<Rightarrow> error + strategy" where
  "strategy_update_indicators tk st = Inr (st\<lparr>current_tick := Some tk\<rparr>)"

definition strategy_update_position :: "int \<Rightarrow> real \<Rightarrow> strategy \<Rightarrow> error + strategy" where
  "strategy_update_position position_size price st =
     Inr (if position_size \<noteq> 0 then st\<lparr>entry_price := price\<rparr> else st\<lparr>entry_price := 0\<rparr>)"

definition tick_seconds :: "strategy \<Rightarrow> error + int" where
  "tick_seconds st =
     (case current_tick st of None \<Rightarrow> Inl KeyError | Some tk \<Rightarrow> Inr (time_to_seconds (Time tk)))"

definition tick_price :: "strategy \<Rightarrow> error + real" where
  "tick_price st = (case current_tick st of None \<Rightarrow> Inl KeyError | Some tk \<Rightarrow> Inr (Price tk))"

definition strategy_check_long_entry :: "strategy \<Rightarrow> error + (bool \<times> strategy)" where
  "strategy_check_long_entry st =
     (case cls st of
        Strategy \<Rightarrow> Inr (False, st)
      | Strategy_A \<Rightarrow>
          bindE (tick_seconds st) (\<lambda>time_sec. Inr (time_sec mod 3600 = 0 \<and> time_sec > 3600, st))
      | Strategy_B \<Rightarrow> Inr (False, st)
      | Strategy_C \<Rightarrow>
          bindE (tick_seconds st) (\<lambda>time_sec.
            if time_sec mod 900 = 0 \<and> trade_count st mod 2 = 0
            then Inr (True, st\<lparr>trade_count := trade_count st + 1\<rparr>)
            else Inr (False, st)))"

definition strategy_check_short_entry :: "strategy \<Rightarrow> error + (bool \<times> strategy)" where
  "strategy_check_short_entry st =
     (case cls st of
        Strategy \<Rightarrow> Inr (False, st)
      | Strategy_A \<Rightarrow> Inr (False, st)
      | Strategy_B \<Rightarrow>
          bindE (tick_seconds st) (\<lambda>time_sec.
            Inr (time_sec mod 1800 = 0 \<and> time_sec mod 3600 \<noteq> 0 \<and> entry_price st = 0, st))
      | Strategy_C \<Rightarrow>
          bindE (tick_seconds st) (\<lambda>time_sec.
            if time_sec mod 900 = 0 \<and> trade_count st mod 2 = 1
            then Inr (True, st\<lparr>trade_count := trade_count st + 1\<rparr>)
            else Inr (False, st)))"

definition tp_sl_long :: "strategy \<Rightarrow> error + (bool \<times> strategy)" where
  "tp_sl_long st =
     (if entry_price st = 0 then Inr (False, st)
      else bindE (tick_price st) (\<lambda>current_price.
             let pnl = current_price - entry_price st in Inr (pnl \<ge> tp st \<or> pnl \<le> - sl st, st)))"

definition tp_sl_short :: "strategy \<Rightarrow> error + (bool \<times> strategy)" where
  "tp_sl_short st =
     (if entry_price st = 0 then Inr (False, st)
      else bindE (tick_price st) (\<lambda>current_price.
             let pnl = entry_price st - current_price in Inr (pnl \<ge> tp st \<or> pnl \<le> - sl st, st)))"

definition strategy_check_long_exit :: "strategy \<Rightarrow> error + (bool \<times> strategy)" where
  "strategy_check_long_exit st =
     (case cls st of
        Strategy \<Rightarrow> Inr (False, st)
      | Strategy_A \<Rightarrow> tp_sl_long st
      | Strategy_B \<Rightarrow> Inr (False, st)
      | Strategy_C \<Rightarrow> tp_sl_long st)"

definition strategy_check_short_exit :: "strategy \<Rightarrow> error + (bool \<times> strategy)" where
  "strategy_check_short_exit st =
     (case cls st of
        Strategy \<Rightarrow> Inr (False, st)
      | Strategy_A \<Rightarrow> Inr (False, st)
      | Strategy_B \<Rightarrow> tp_sl_short st
      | Strategy_C \<Rightarrow> tp_sl_short st)"

text \<open>
  The two primitives where no rounding takes place. \<open>exact_mul\<close> is the runtime's product
  whenever the integer and the exact product are doubles; \<open>decimal_round\<close> rounds the
  exact value to the nearest multiple of \<open>10^-n\<close>, ties to the even one, which is the
  runtime's \<open>round\<close> on whole numbers. They serve the examples, whose values are of
  that kind.
\<close>

definition exact_mul :: "int \<Rightarrow> pyfloat \<Rightarrow> error + pyfloat" where
  "exact_mul a pm =
     (case pm of
        Finite r \<Rightarrow> Inr (Finite (real_of_int a * r))
      | PosInf \<Rightarrow> Inr (if a > 0 then PosInf else if a < 0 then NegInf else NaN)
      | NegInf \<Rightarrow> Inr (if a > 0 then NegInf else if a < 0 then PosInf else NaN)
      | NaN \<Rightarrow> Inr NaN)"

definition decimal_round :: "real \<Rightarrow> nat \<Rightarrow> real" where
  "decimal_round x n =
     (let y = x * 10 ^ n; f = \<lfloor>y\<rfloor>; d = y - of_int f;
          r = (if d < 1 / 2 then f else if d > 1 / 2 then f + 1 else if even f then f else f + 1)
      in of_int r / 10 ^ n)"

definition repo_externals :: "strategy externals" where
  "repo_externals =
     \<lparr>op_update_indicators = strategy_update_indicators,
      op_check_long_entry = strategy_check_long_entry,
      op_check_short_entry = strategy_check_short_entry,
      op_check_long_exit = strategy_check_long_exit,
      op_check_short_exit = strategy_check_short_exit,
      op_update_position = strategy_update_position,
      op_reset = strategy_reset,
      float_mul = exact_mul,
      float_round = decimal_round\<rparr>"

section \<open>engine.py: configuration and state\<close>

text \<open>
  The configuration is a nested dictionary with attribute access. A key read with
  \<open>.get(key, default)\<close> is an \<open>option\<close> field, \<open>None\<close> when the key is absent. A key read
  as an attribute (\<open>config.engine\<close>, \<open>engine.aimd\<close>, \<open>engine.transaction_cost\<close>,
  \<open>config.strategies\<close> and each strategy's \<open>tp\<close>, \<open>sl\<close> and \<open>name\<close>) is an \<open>option\<close> field
  too, and reading it when absent raises \<open>AttributeError\<close>. \<open>cfg_day_length\<close> is the key
  \<open>day_length\<close> a configuration file may carry.
\<close>

record strat_config =
  cfg_name :: "string option"
  cfg_tp :: "real option"
  cfg_sl :: "real option"

record aimd_config =
  cfg_initial_ask :: "int option"
  cfg_reward_add :: "int option"
  cfg_penalty_mult :: "pyfloat option"

record engine_config =
  cfg_inventory_limit :: "int option"
  cfg_trade_limit :: "int option"
  cfg_cooldown_period :: "int option"
  cfg_initial_equity :: "real option"
  cfg_snapshot_period :: "int option"
  cfg_day_length :: "int option"
  cfg_transaction_cost :: "real option"
  cfg_aimd :: "aimd_config option"

record config =
  engine :: "engine_config option"
  strategies_cfg :: "strat_config list option"

definition getattr :: "'a option \<Rightarrow> error + 'a" where
  "getattr v = (case v of None \<Rightarrow> Inl AttributeError | Some x \<Rightarrow> Inr x)"

definition dict_get :: "'a option \<Rightarrow> 'a \<Rightarrow> 'a" where
  "dict_get v dflt = (case v of None \<Rightarrow> dflt | Some x \<Rightarrow> x)"

datatype side = Buy | Sell

record trade_row =
  tb_Time :: pytime
  tb_Price :: real
  tb_Quantity :: int
  tb_Side :: side
  tb_Inventory :: int
  tb_Transaction_Cost :: real
  tb_Day :: "int option"

record snap_row =
  sb_Time :: pytime
  sb_Day :: "int option"
  sb_Equity :: real
  sb_Cash :: real
  sb_Inventory :: int

record 's orchestrator =
  strategies :: "'s list"
  o_num_strats :: nat
  o_trade_limit :: int
  position :: position
  cooldown_period :: int
  cash :: real
  initial_equity :: real
  equity :: real
  current_asks :: asks_state
  snapshot_period :: int
  tran_cost :: real
  tp_list :: "real list"
  sl_list :: "real list"
  strategy_names :: "string list"
  entry_prices :: "real list"
  entry_times :: "pytime option list"
  signals :: "int list"
  last_trade_time :: int
  day_length :: int
  eod_squared_off :: bool
  current_pointer :: int
  trade_backlog :: npint
  current_inventory :: npint
  current_day :: "int option"
  day_start_equity :: real
  day_start_fees :: real
  day_start_trades :: int
  day_start_trade_idx :: nat
  total_fee :: real
  trade_book :: "trade_row list"
  snap_book :: "snap_row list"

text \<open>
  \<open>Orchestrator.__init__\<close>. No value read from the configuration is checked. The default
  \<open>penalty_mult\<close> is the double written \<open>0.666\<close>.
\<close>

definition Orchestrator_init :: "'s list \<Rightarrow> config \<Rightarrow> error + 's orchestrator" where
  "Orchestrator_init strats cfg =
     bindE (getattr (engine cfg)) (\<lambda>eng.
       let n = length strats;
           il = dict_get (cfg_inventory_limit eng) 100;
           tlim = dict_get (cfg_trade_limit eng) 100;
           cd = dict_get (cfg_cooldown_period eng) 15;
           eq = dict_get (cfg_initial_equity eng) 100000
       in
       bindE (getattr (cfg_aimd eng)) (\<lambda>am.
       bindE (getattr (cfg_transaction_cost eng)) (\<lambda>tc.
       bindE (getattr (strategies_cfg cfg)) (\<lambda>scs.
       bindE (mapE (\<lambda>sc. getattr (cfg_tp sc)) scs) (\<lambda>tps.
       bindE (mapE (\<lambda>sc. getattr (cfg_sl sc)) scs) (\<lambda>sls.
       bindE (mapE (\<lambda>sc. getattr (cfg_name sc)) scs) (\<lambda>names.
         Inr \<lparr>strategies = strats,
              o_num_strats = n,
              o_trade_limit = tlim,
              position = Position_init (int n) il tlim,
              cooldown_period = cd,
              cash = eq,
              initial_equity = eq,
              equity = eq,
              current_asks =
                Asks_init (int n) (dict_get (cfg_initial_ask am) 10)
                  (dict_get (cfg_reward_add am) 33)
                  (dict_get (cfg_penalty_mult am)
                     (Finite (5998794703657501 / 9007199254740992))),
              snapshot_period = dict_get (cfg_snapshot_period eng) 300,
              tran_cost = tc,
              tp_list = tps,
              sl_list = sls,
              strategy_names = names,
              entry_prices = replicate n 0,
              entry_times = replicate n None,
              signals = replicate n 0,
              last_trade_time = - cd,
              day_length = 6 * 3600,
              eod_squared_off = False,
              current_pointer = 0,
              trade_backlog = PyInt 0,
              current_inventory = PyInt 0,
              current_day = None,
              day_start_equity = 0,
              day_start_fees = 0,
              day_start_trades = 0,
              day_start_trade_idx = 0,
              total_fee = 0,
              trade_book = [],
              snap_book = []\<rparr>)))))))"

section \<open>engine.py: the tick protocol\<close>

text \<open>\<open>_portfolio_snapshot\<close>: the row keeps the columns of \<open>snap_book\<close>.\<close>

definition portfolio_snapshot :: "'s externals \<Rightarrow> 's orchestrator \<Rightarrow> tick \<Rightarrow> 's orchestrator" where
  "portfolio_snapshot ops s tk =
     (let e = cash s + real_of_int (np_val (current_inventory s)) * Price tk
      in s\<lparr>equity := e,
           snap_book := snap_book s @
             [\<lparr>sb_Time = Time tk, sb_Day = current_day s, sb_Equity = float_round ops e 2,
               sb_Cash = float_round ops (cash s) 2,
               sb_Inventory = sum_list (pos (position s))\<rparr>]\<rparr>)"

text \<open>\<open>_log_order\<close>: one row of the trade book per fill.\<close>

definition log_order ::
  "'s externals \<Rightarrow> 's orchestrator \<Rightarrow> pytime \<Rightarrow> real \<Rightarrow> npint \<Rightarrow> side \<Rightarrow> 's orchestrator" where
  "log_order ops s t price quantity sd =
     (let transaction_cost = tran_cost s * price * real_of_int (np_val (np_abs quantity))
      in s\<lparr>trade_book := trade_book s @
             [\<lparr>tb_Time = t, tb_Price = float_round ops price 3, tb_Quantity = np_val quantity,
               tb_Side = sd,
               tb_Inventory = sum_list (pos (position s)),
               tb_Transaction_Cost = float_round ops transaction_cost 4,
               tb_Day = current_day s\<rparr>]\<rparr>)"

text \<open>
  \<open>execute_trade\<close>: the release of one slice of the backlog. \<open>np.sign\<close> makes
  \<open>execute_qty\<close> an \<open>int64\<close> scalar, and with it the backlog and the inventory.
\<close>

definition execute_trade ::
  "'s externals \<Rightarrow> 's orchestrator \<Rightarrow> tick \<Rightarrow> error + 's orchestrator" where
  "execute_trade ops s tk =
     bindE (np_sign (trade_backlog s)) (\<lambda>sg.
     bindE (np_mul (py_min (np_abs (trade_backlog s)) (PyInt (o_trade_limit s))) sg) (\<lambda>execute_qty.
     bindE (np_sub (trade_backlog s) execute_qty) (\<lambda>backlog.
     bindE (np_add (current_inventory s) execute_qty) (\<lambda>inventory.
       let fee = tran_cost s * Price tk * real_of_int (np_val (np_abs execute_qty));
           s1 = s\<lparr>trade_backlog := backlog,
                  current_inventory := inventory,
                  cash := cash s - (real_of_int (np_val execute_qty) * Price tk + fee),
                  total_fee := total_fee s + fee\<rparr>;
           s2 = log_order ops s1 (Time tk) (Price tk) (np_abs execute_qty)
                  (if np_val execute_qty > 0 then Buy else Sell)
       in Inr (s2\<lparr>last_trade_time := current_pointer s2\<rparr>)))))"

text \<open>
  \<open>get_signals\<close>, iteration \<open>i\<close> over \<open>enumerate(self.strategies)\<close>, on the pair of the
  \<open>signals\<close> list and the strategy objects. \<open>signals[i]\<close> is assigned in every branch but
  the flat one without an entry.
\<close>

definition signal_step ::
  "'s externals \<Rightarrow> int list \<Rightarrow> nat \<Rightarrow> int list \<times> 's list \<Rightarrow> error + (int list \<times> 's list)" where
  "signal_step ops ps i st =
     (case st of (sg, sts) \<Rightarrow>
        bindE (getitem ps i) (\<lambda>p.
          if p = 0 then
            bindE (op_check_long_entry ops (sts ! i)) (\<lambda>(b, x).
              if b then bindE (setitem sg i 1) (\<lambda>sg'. Inr (sg', sts[i := x]))
              else bindE (op_check_short_entry ops x) (\<lambda>(b', x').
                     if b' then bindE (setitem sg i (- 1)) (\<lambda>sg'. Inr (sg', sts[i := x']))
                     else Inr (sg, sts[i := x'])))
          else if p > 0 then
            bindE (op_check_long_exit ops (sts ! i)) (\<lambda>(b, x).
              bindE (setitem sg i (if b then - 1 else 0)) (\<lambda>sg'. Inr (sg', sts[i := x])))
          else
            bindE (op_check_short_exit ops (sts ! i)) (\<lambda>(b, x).
              bindE (setitem sg i (if b then 1 else 0)) (\<lambda>sg'. Inr (sg', sts[i := x])))))"

definition get_signals :: "'s externals \<Rightarrow> 's orchestrator \<Rightarrow> error + (int list \<times> 's list)" where
  "get_signals ops s =
     foldE (signal_step ops (pos (position s))) [0..<length (strategies s)]
       (replicate (o_num_strats s) 0, strategies s)"

text \<open>\<open>_calc_pnl\<close> returns the PnL and adds the round-trip cost to \<open>total_fee\<close>.\<close>

definition calc_pnl :: "real \<Rightarrow> real \<Rightarrow> real \<Rightarrow> real \<Rightarrow> int \<Rightarrow> real \<times> real" where
  "calc_pnl tc fee entry exit_price position_size =
     (let price_pnl = (exit_price - entry) * real_of_int (sgn position_size);
          transaction_cost = tc * (entry + exit_price);
          pnl = (price_pnl - transaction_cost) * real_of_int \<bar>position_size\<bar>
      in (pnl, fee + transaction_cost * real_of_int \<bar>position_size\<bar>))"

text \<open>\<open>_compute_strategy_pnl\<close>, iteration \<open>i\<close>, on the pair of \<open>pnl_list\<close> and \<open>total_fee\<close>.\<close>

definition pnl_step ::
  "real \<Rightarrow> real list \<Rightarrow> real \<Rightarrow> int list \<Rightarrow> int list \<Rightarrow> nat \<Rightarrow> pyfloat list \<times> real
     \<Rightarrow> error + (pyfloat list \<times> real)" where
  "pnl_step tc eps current_price prev_pos final_pos i st =
     (case st of (pnl_list, fee) \<Rightarrow>
        bindE (getitem prev_pos i) (\<lambda>pp.
          if pp \<noteq> 0 then
            bindE (getitem final_pos i) (\<lambda>fp.
              if fp * pp \<le> 0 then
                bindE (getitem eps i) (\<lambda>ep.
                  case calc_pnl tc fee ep current_price pp of (pnl, fee') \<Rightarrow>
                    bindE (setitem pnl_list i (Finite pnl)) (\<lambda>pl. Inr (pl, fee')))
              else Inr (pnl_list, fee))
          else Inr (pnl_list, fee)))"

definition compute_strategy_pnl ::
  "'s orchestrator \<Rightarrow> real \<Rightarrow> int list \<Rightarrow> int list \<Rightarrow> error + (pyfloat list \<times> real)" where
  "compute_strategy_pnl s current_price prev_pos final_pos =
     foldE (pnl_step (tran_cost s) (entry_prices s) current_price prev_pos final_pos)
       [0..<o_num_strats s] (replicate (o_num_strats s) (Finite 0), total_fee s)"

text \<open>
  The loop of \<open>process_tick\<close> that records entries and exits, iteration \<open>i\<close>, on the strategy
  objects, \<open>entry_prices\<close> and \<open>entry_times\<close>.
\<close>

definition entry_step ::
  "'s externals \<Rightarrow> tick \<Rightarrow> int list \<Rightarrow> int list \<Rightarrow> nat
     \<Rightarrow> 's list \<times> real list \<times> pytime option list
     \<Rightarrow> error + ('s list \<times> real list \<times> pytime option list)" where
  "entry_step ops tk prev_pos cur_pos i st =
     (case st of (sts, eps, ets) \<Rightarrow>
        bindE (getitem prev_pos i) (\<lambda>pp.
          bindE (getitem cur_pos i) (\<lambda>cp.
            if pp = 0 \<and> cp \<noteq> 0 then
              bindE (op_update_position ops cp (Price tk) (sts ! i)) (\<lambda>x.
                bindE (setitem eps i (Price tk)) (\<lambda>eps'.
                  bindE (setitem ets i (Some (Time tk))) (\<lambda>ets'.
                    Inr (sts[i := x], eps', ets'))))
            else if cp = 0 \<and> pp \<noteq> 0 then
              bindE (op_update_position ops 0 0 (sts ! i)) (\<lambda>x.
                bindE (setitem eps i 0) (\<lambda>eps'.
                  bindE (setitem ets i None) (\<lambda>ets'.
                    Inr (sts[i := x], eps', ets'))))
            else Inr (sts, eps, ets))))"

text \<open>
  Lines 78 to 95 of \<open>process_tick\<close>: the day rollover, the time pointer, the indicator
  refresh and the periodic snapshot (\<open>%\<close> raises on a zero period).
\<close>

definition begin_tick ::
  "'s externals \<Rightarrow> 's orchestrator \<Rightarrow> tick \<Rightarrow> int \<Rightarrow> error + 's orchestrator" where
  "begin_tick ops s tk day_num =
     (let s1 = (if current_day s \<noteq> Some day_num
                then (let e = cash s + real_of_int (np_val (current_inventory s)) * Price tk
                      in s\<lparr>current_day := Some day_num,
                           equity := e,
                           last_trade_time := - cooldown_period s,
                           day_start_equity := e,
                           day_start_fees := total_fee s,
                           day_start_trade_idx := length (trade_book s),
                           eod_squared_off := False\<rparr>)
                else s);
          s2 = s1\<lparr>current_pointer := time_to_seconds (Time tk)\<rparr>
      in bindE (if \<not> eod_squared_off s2
                then bindE (mapE (op_update_indicators ops tk) (strategies s2))
                       (\<lambda>sts. Inr (s2\<lparr>strategies := sts\<rparr>))
                else Inr s2)
           (\<lambda>s3. if snapshot_period s3 = 0 then Inl ZeroDivisionError
                 else if current_pointer s3 mod snapshot_period s3 = 0
                 then Inr (portfolio_snapshot ops s3 tk)
                 else Inr s3))"

text \<open>Lines 104 to 111: the end-of-day square-off.\<close>

definition square_off :: "'s externals \<Rightarrow> 's orchestrator \<Rightarrow> error + 's orchestrator" where
  "square_off ops s =
     (let prev_pos = pos (position s) in
      bindE (np_add (trade_backlog s) (PyInt (- sum_list prev_pos))) (\<lambda>backlog.
        let s1 = s\<lparr>position := reset_position (position s),
                   trade_backlog := backlog,
                   eod_squared_off := True\<rparr>
        in bindE (mapE (op_reset ops) (strategies s1)) (\<lambda>sts. Inr (s1\<lparr>strategies := sts\<rparr>))))"

text \<open>
  Lines 113 to 131: signals, netting and the entry bookkeeping. Returns the state, the
  positions before the netting and the flags.
\<close>

definition trade_entries ::
  "'s externals \<Rightarrow> 's orchestrator \<Rightarrow> tick \<Rightarrow> error + ('s orchestrator \<times> int list \<times> int list)" where
  "trade_entries ops s tk =
     bindE (get_signals ops s) (\<lambda>(sg, sts).
       let prev_pos = pos (position s) in
       bindE (update_position (position s) sg (asks (current_asks s))) (\<lambda>(P, trades_to_execute, aimd).
         bindE (np_add (trade_backlog s) (PyInt trades_to_execute)) (\<lambda>backlog.
           let cur_pos = pos P in
           bindE (foldE (entry_step ops tk prev_pos cur_pos) [0..<length sts]
                    (sts, entry_prices s, entry_times s)) (\<lambda>(sts', eps, ets).
             Inr (s\<lparr>strategies := sts', position := P, trade_backlog := backlog,
                     entry_prices := eps, entry_times := ets\<rparr>, prev_pos, aimd)))))"

text \<open>Lines 113 to 134: the above, then the PnL of the closed slots and the AIMD feedback.\<close>

definition trade_phase :: "'s externals \<Rightarrow> 's orchestrator \<Rightarrow> tick \<Rightarrow> error + 's orchestrator" where
  "trade_phase ops s tk =
     bindE (trade_entries ops s tk) (\<lambda>(s1, prev_pos, aimd).
       bindE (compute_strategy_pnl s1 (Price tk) prev_pos (pos (position s1))) (\<lambda>(pnl_list, fee).
         bindE (update (float_mul ops) (current_asks s1) pnl_list aimd) (\<lambda>A.
           Inr (s1\<lparr>total_fee := fee, current_asks := A\<rparr>))))"

text \<open>\<open>process_tick\<close>.\<close>

definition process_tick ::
  "'s externals \<Rightarrow> 's orchestrator \<Rightarrow> tick \<Rightarrow> int \<Rightarrow> error + 's orchestrator" where
  "process_tick ops s tk day_num =
     bindE (begin_tick ops s tk day_num) (\<lambda>s4.
       if np_val (trade_backlog s4) \<noteq> 0
          \<and> current_pointer s4 - last_trade_time s4 > cooldown_period s4
       then execute_trade ops s4 tk
       else if eod_squared_off s4 then Inr s4
       else if current_pointer s4 \<ge> day_length s4 then square_off ops s4
       else trade_phase ops s4 tk)"

section \<open>main.py: the run\<close>

text \<open>\<open>main\<close> builds the orchestrator once and feeds it every tick of every day file in
  order; the first exception ends the run.\<close>

definition run ::
  "'s externals \<Rightarrow> 's orchestrator \<Rightarrow> (tick \<times> int) list \<Rightarrow> error + 's orchestrator" where
  "run ops s ticks = foldE (\<lambda>(tk, day_num) s'. process_tick ops s' tk day_num) ticks s"

definition backtest ::
  "'s externals \<Rightarrow> 's list \<Rightarrow> config \<Rightarrow> (tick \<times> int) list \<Rightarrow> error + 's orchestrator" where
  "backtest ops strats cfg ticks = bindE (Orchestrator_init strats cfg) (\<lambda>s. run ops s ticks)"

section \<open>Vocabulary of the properties\<close>

text \<open>
  The allocation rule of the specification, in its own words: walking the sequence in
  index order with the capacity \<open>used\<close> so far, an entry that fits is kept and its absolute
  value is added to \<open>used\<close>; the first entry that does not fit is clamped to the remaining
  headroom with its sign (\<open>+\<close> for a zero entry), and every later entry becomes 0.
\<close>

fun first_come_from :: "int \<Rightarrow> int \<Rightarrow> int list \<Rightarrow> int list" where
  "first_come_from il used [] = []"
| "first_come_from il used (v # vs) =
     (if used + \<bar>v\<bar> \<le> il then v # first_come_from il (used + \<bar>v\<bar>) vs
      else ((il - used) * (if v < 0 then - 1 else 1)) # replicate (length vs) 0)"

text \<open>An entry and its normalised value lie on the same side of zero.\<close>

definition same_side :: "int \<Rightarrow> int \<Rightarrow> bool" where
  "same_side p r \<longleftrightarrow> (0 \<le> p \<longrightarrow> 0 \<le> r) \<and> (p \<le> 0 \<longrightarrow> r \<le> 0)"

text \<open>All entries of a book lie on the side of one direction \<open>d\<close>, and are 0 while \<open>d\<close> is
  still undecided.\<close>

definition locked :: "int \<Rightarrow> int list \<Rightarrow> bool" where
  "locked d xs \<longleftrightarrow> d \<in> {-1, 0, 1} \<and> (\<forall>x\<in>set xs. (d = 0 \<longrightarrow> x = 0) \<and> 0 \<le> x * d)"

text \<open>
  The AIMD rule of the specification for one slot, as a relation between the old and the
  new ask: additive increase on a profitable close, multiplicative decrease floored at 1
  on a losing close (the floor of the runtime's product \<open>fm old pm\<close>), no change otherwise.
\<close>

definition aimd_rule ::
  "(int \<Rightarrow> pyfloat \<Rightarrow> error + pyfloat) \<Rightarrow> int \<Rightarrow> pyfloat \<Rightarrow> pyfloat \<Rightarrow> int \<Rightarrow> int \<Rightarrow> int \<Rightarrow> bool" where
  "aimd_rule fm ra pm pnl flag old new \<longleftrightarrow>
     (if flag = 1 \<and> float_ne0 pnl
      then (if float_gt0 pnl then new = old + ra
            else \<exists>x. fm old pm = Inr (Finite x) \<and> new = max 1 \<lfloor>x\<rfloor>)
      else new = old)"

text \<open>Example objects: a ledger with limit 100 and a sizer with reward 33 and penalty
  one half.\<close>

definition ex_ledger :: position where
  "ex_ledger = Position_init 2 100 100"

definition ex_sizer :: asks_state where
  "ex_sizer = \<lparr>asks_num_strats = 4, asks = [10, 10, 1, 10], reward_add = 33,
                penalty_mult = Finite (1 / 2)\<rparr>"

text \<open>
  Observations on the orchestrator. \<open>backlog_val\<close> and \<open>inventory_val\<close> are the values of
  the backlog and the inventory, \<open>exposure\<close> the aggregate position of the ledger. Each
  fill is logged with its absolute quantity and its side: \<open>signed_qty\<close> is the signed
  quantity of a row, \<open>fills_since s s'\<close> the rows logged between two states,
  \<open>released_since\<close> their signed total, \<open>release_seconds\<close> the timestamp of a row in
  seconds.
\<close>

definition backlog_val :: "'s orchestrator \<Rightarrow> int" where
  "backlog_val s = np_val (trade_backlog s)"

definition inventory_val :: "'s orchestrator \<Rightarrow> int" where
  "inventory_val s = np_val (current_inventory s)"

definition exposure :: "'s orchestrator \<Rightarrow> int" where
  "exposure s = sum_list (pos (position s))"

definition signed_qty :: "trade_row \<Rightarrow> int" where
  "signed_qty r = (if tb_Side r = Buy then tb_Quantity r else - tb_Quantity r)"

definition fills_since :: "'s orchestrator \<Rightarrow> 's orchestrator \<Rightarrow> trade_row list" where
  "fills_since s s' = drop (length (trade_book s)) (trade_book s')"

definition released_since :: "'s orchestrator \<Rightarrow> 's orchestrator \<Rightarrow> int" where
  "released_since s s' = sum_list (map signed_qty (fills_since s s'))"

definition release_seconds :: "trade_row \<Rightarrow> int" where
  "release_seconds r = time_to_seconds (tb_Time r)"

definition release_times :: "'s orchestrator \<Rightarrow> int list" where
  "release_times s = map release_seconds (trade_book s)"

text \<open>Two integers agree as \<open>int64\<close> scalars, that is modulo \<open>2^64\<close>.\<close>

definition same_int64 :: "int \<Rightarrow> int \<Rightarrow> bool" where
  "same_int64 a b \<longleftrightarrow> (word_of_int a :: 64 word) = word_of_int b"

text \<open>
  The release condition and the released quantity in the specification's words: a release
  fires when the backlog is not zero and the tick's time exceeds the last release time by
  more than the cooldown, the last release time being the baseline \<open>- cooldown_period\<close> on
  the first tick of a day; the quantity is \<open>min(|backlog|, tradeLimit)\<close> with the sign of
  the backlog.
\<close>

definition fires :: "'s orchestrator \<Rightarrow> tick \<Rightarrow> int \<Rightarrow> bool" where
  "fires s tk d \<longleftrightarrow>
     backlog_val s \<noteq> 0 \<and>
     time_to_seconds (Time tk)
       - (if current_day s = Some d then last_trade_time s else - cooldown_period s)
       > cooldown_period s"

definition release_qty :: "'s orchestrator \<Rightarrow> int" where
  "release_qty s = sgn (backlog_val s) * min \<bar>backlog_val s\<bar> (o_trade_limit s)"

text \<open>Two release timestamps respect the cooldown \<open>cd\<close>.\<close>

definition min_gap :: "int \<Rightarrow> int \<Rightarrow> int \<Rightarrow> bool" where
  "min_gap cd t1 t2 \<longleftrightarrow> t2 - t1 \<ge> cd + 1"

text \<open>The PnL list that \<open>process_tick\<close> computes on a tick that reaches the netting.\<close>

definition tick_pnl_list :: "'s externals \<Rightarrow> 's orchestrator \<Rightarrow> tick \<Rightarrow> error + pyfloat list" where
  "tick_pnl_list ops s tk =
     bindE (trade_entries ops s tk) (\<lambda>(s1, prev_pos, aimd).
       bindE (compute_strategy_pnl s1 (Price tk) prev_pos (pos (position s1))) (\<lambda>(pnl_list, fee).
         Inr pnl_list))"

text \<open>
  A configuration with the three limits replaced, and the conditions under which the
  collaborators never raise: \<open>ready\<close> is a property of strategy objects that
  \<open>update_indicators\<close> establishes and under which every other operation returns (the
  checks and \<open>update_position\<close> keeping it); the penalty product is finite.
\<close>

definition with_limits :: "config \<Rightarrow> int option \<Rightarrow> int option \<Rightarrow> int option \<Rightarrow> config" where
  "with_limits cfg il tr_lim cd =
     (case engine cfg of
        None \<Rightarrow> cfg
      | Some eng \<Rightarrow>
          cfg\<lparr>engine := Some (eng\<lparr>cfg_inventory_limit := il, cfg_trade_limit := tr_lim,
                                  cfg_cooldown_period := cd\<rparr>)\<rparr>)"

definition check_returns :: "('s \<Rightarrow> bool) \<Rightarrow> ('s \<Rightarrow> error + (bool \<times> 's)) \<Rightarrow> bool" where
  "check_returns ready f \<longleftrightarrow> (\<forall>st. ready st \<longrightarrow> (\<exists>b st'. f st = Inr (b, st') \<and> ready st'))"

definition collaborators_return :: "'s externals \<Rightarrow> ('s \<Rightarrow> bool) \<Rightarrow> pyfloat \<Rightarrow> bool" where
  "collaborators_return ops ready pm \<longleftrightarrow>
     (\<forall>tk st. \<exists>st'. op_update_indicators ops tk st = Inr st' \<and> ready st') \<and>
     check_returns ready (op_check_long_entry ops) \<and>
     check_returns ready (op_check_short_entry ops) \<and>
     check_returns ready (op_check_long_exit ops) \<and>
     check_returns ready (op_check_short_exit ops) \<and>
     (\<forall>p e st. ready st \<longrightarrow> (\<exists>st'. op_update_position ops p e st = Inr st' \<and> ready st')) \<and>
     (\<forall>st. ready st \<longrightarrow> (\<exists>st'. op_reset ops st = Inr st')) \<and>
     (\<forall>a. \<exists>x. float_mul ops a pm = Inr (Finite x))"

text \<open>
  The state invariant of a run: every per-slot list has one entry per strategy; the
  positions respect the limit in absolute value; the limits lie within \<open>int64\<close>; and the
  backlog and the inventory are either still the Python integers of the constructor (no
  release yet: the backlog is the aggregate position, the inventory 0) or both \<open>int64\<close>
  scalars.
\<close>

definition well_formed :: "'s orchestrator \<Rightarrow> bool" where
  "well_formed s \<longleftrightarrow>
     length (strategies s) = o_num_strats s \<and>
     num_strats (position s) = int (o_num_strats s) \<and>
     length (pos (position s)) = o_num_strats s \<and>
     length (asks (current_asks s)) = o_num_strats s \<and>
     length (entry_prices s) = o_num_strats s \<and>
     length (entry_times s) = o_num_strats s"

definition within_bounds :: "'s orchestrator \<Rightarrow> bool" where
  "within_bounds s \<longleftrightarrow>
     \<bar>inventory_limit (position s)\<bar> < 2 ^ 62 \<and> in_int64 (o_trade_limit s) \<and>
     snapshot_period s \<noteq> 0 \<and>
     sum_list (map abs (pos (position s))) \<le> \<bar>inventory_limit (position s)\<bar>"

definition scalars_ok :: "'s orchestrator \<Rightarrow> bool" where
  "scalars_ok s \<longleftrightarrow>
     trade_backlog s = PyInt (sum_list (pos (position s))) \<and> current_inventory s = PyInt 0 \<or>
     (\<exists>w. trade_backlog s = Int64 w) \<and> (\<exists>w. current_inventory s = Int64 w)"

definition run_invariant :: "'s orchestrator \<Rightarrow> bool" where
  "run_invariant s \<longleftrightarrow> well_formed s \<and> within_bounds s \<and> scalars_ok s"

definition tick_seen :: "strategy \<Rightarrow> bool" where
  "tick_seen st \<longleftrightarrow> current_tick st \<noteq> None"

text \<open>
  Example runs: one \<open>Strategy_A\<close> (long at every full hour after 01:00:00), limit 100,
  trade limit 5, cooldown 15, ask 10. \<open>ex_engine\<close> is the orchestrator as constructed,
  \<open>ex_engine1\<close> after the entry at 02:00:00, \<open>ex_engine_held\<close> after the backlog of 10
  has been released in two fills.
\<close>

definition ex_engine_cfg :: engine_config where
  "ex_engine_cfg = \<lparr>cfg_inventory_limit = Some 100, cfg_trade_limit = Some 5,
       cfg_cooldown_period = Some 15, cfg_initial_equity = None, cfg_snapshot_period = Some 300,
       cfg_day_length = None, cfg_transaction_cost = Some 0,
       cfg_aimd = Some \<lparr>cfg_initial_ask = Some 10, cfg_reward_add = None,
                         cfg_penalty_mult = Some (Finite (1 / 2))\<rparr>\<rparr>"

definition ex_strat_cfg :: "string \<Rightarrow> strat_config" where
  "ex_strat_cfg nm = \<lparr>cfg_name = Some nm, cfg_tp = Some 1, cfg_sl = Some 1\<rparr>"

definition ex_cfg :: config where
  "ex_cfg = \<lparr>engine = Some ex_engine_cfg, strategies_cfg = Some [ex_strat_cfg ''Strategy_A'']\<rparr>"

definition tick_at :: "nat \<Rightarrow> nat \<Rightarrow> nat \<Rightarrow> real \<Rightarrow> tick" where
  "tick_at h m sec p = \<lparr>Time = \<lparr>hour = h, minute = m, second = sec\<rparr>, Price = p\<rparr>"

definition ex_ticks :: "(tick \<times> int) list" where
  "ex_ticks = [(tick_at 2 0 0 100, 1), (tick_at 2 0 1 100, 1), (tick_at 2 0 5 100, 2)]"

definition ex_day_ticks :: "(tick \<times> int) list" where
  "ex_day_ticks = [(tick_at 2 0 0 100, 1), (tick_at 2 0 1 100, 1), (tick_at 2 0 10 100, 1),
                   (tick_at 2 0 17 100, 1)]"


definition ex_engine :: "strategy orchestrator" where
  "ex_engine = projr (Orchestrator_init [Strategy_init Strategy_A 1 1] ex_cfg)"

definition ex_engine1 :: "strategy orchestrator" where
  "ex_engine1 = projr (process_tick repo_externals ex_engine (tick_at 2 0 0 100) 1)"


text \<open>Configurations with non-positive limits, and with a \<open>day_length\<close> entry.\<close>

definition ex_unchecked_cfg :: config where
  "ex_unchecked_cfg = with_limits ex_cfg (Some (- 5)) (Some 0) (Some (- 1))"


text \<open>
  A configuration with a negative trade limit, and one whose limits and ask are \<open>2^62\<close>
  with a cooldown that admits one release a day, for \<open>Strategy_A\<close> in slot 0 and
  \<open>Strategy_B\<close> (short at every half hour) in slot 1; the ticks of the latter run are a
  short entry, its release, the exit on a price drop, and the long entry of slot 0.
\<close>

definition ex_negative_limit_cfg :: config where
  "ex_negative_limit_cfg = ex_cfg\<lparr>engine := Some (ex_engine_cfg\<lparr>cfg_trade_limit := Some (- 3)\<rparr>)\<rparr>"

definition ex_large_cfg :: config where
  "ex_large_cfg =
     \<lparr>engine = Some (ex_engine_cfg\<lparr>cfg_inventory_limit := Some (2 ^ 62),
         cfg_trade_limit := Some (2 ^ 62), cfg_cooldown_period := Some 1000000,
         cfg_aimd := Some \<lparr>cfg_initial_ask = Some (2 ^ 62), cfg_reward_add = None,
                            cfg_penalty_mult = Some (Finite (1 / 2))\<rparr>\<rparr>),
      strategies_cfg = Some [ex_strat_cfg ''Strategy_A'', ex_strat_cfg ''Strategy_B'']\<rparr>"

definition ex_large_ticks :: "(tick \<times> int) list" where
  "ex_large_ticks = [(tick_at 1 30 0 100, 1), (tick_at 1 30 1 100, 1), (tick_at 1 30 2 90, 1)]"

definition ex_large_held :: "strategy orchestrator" where
  "ex_large_held = projr (backtest repo_externals
     [Strategy_init Strategy_A 1 1, Strategy_init Strategy_B 1 1] ex_large_cfg ex_large_ticks)"

text \<open>
  A starvation scenario: \<open>Strategy_A\<close> in slot 0 and \<open>Strategy_C\<close> in slot 1 under an
  inventory limit of 10. \<open>ex_pair_held\<close> is the orchestrator after slot 1 went long 10 at
  01:00:00 and the backlog was released; \<open>ex_pair_begun\<close> is that state after the opening
  steps of the tick at 02:00:00, and \<open>ex_pair_strats\<close> the strategy objects after the
  signal collection of that tick.
\<close>

definition ex_pair_cfg :: config where
  "ex_pair_cfg =
     \<lparr>engine = Some (ex_engine_cfg\<lparr>cfg_inventory_limit := Some 10, cfg_trade_limit := None\<rparr>),
      strategies_cfg = Some [ex_strat_cfg ''Strategy_A'', ex_strat_cfg ''Strategy_C'']\<rparr>"

definition ex_pair_held :: "strategy orchestrator" where
  "ex_pair_held = projr (backtest repo_externals
     [Strategy_init Strategy_A 1 1, Strategy_init Strategy_C 1 1] ex_pair_cfg
     [(tick_at 1 0 0 100, 1), (tick_at 1 0 1 100, 1)])"

definition ex_pair_begun :: "strategy orchestrator" where
  "ex_pair_begun = projr (begin_tick repo_externals ex_pair_held (tick_at 2 0 0 100) 1)"

definition ex_pair_strats :: "strategy list" where
  "ex_pair_strats = snd (projr (get_signals repo_externals ex_pair_begun))"

section \<open>Sequencing\<close>

lemma bindE_Inr: "bindE m f = Inr y \<longleftrightarrow> (\<exists>x. m = Inr x \<and> f x = Inr y)"
  by (cases m) (simp_all add: bindE_def)

section \<open>The ledger: normalisation\<close>

lemma normalize_loop_cap:
  "current_limit \<le> il \<Longrightarrow> current_limit + sum_list (map abs (normalize_loop il current_limit ps)) \<le> il"
proof (induction ps arbitrary: current_limit)
  case Nil then show ?case by simp
next
  case (Cons p ps)
  show ?case
  proof (cases "current_limit + \<bar>p\<bar> > il")
    case True
    have "il + sum_list (map abs (normalize_loop il il ps)) \<le> il" using Cons.IH[of il] by simp
    moreover have "\<bar>(il - current_limit) * (if p > 0 then 1 else - 1)\<bar> = il - current_limit"
      using Cons.prems by simp
    ultimately show ?thesis using True by simp
  next
    case False
    then have "current_limit + \<bar>p\<bar> \<le> il" by simp
    from Cons.IH[OF this] show ?thesis using False by simp
  qed
qed

lemma length_normalize_loop: "length (normalize_loop il c ps) = length ps"
  by (induction ps arbitrary: c) auto

lemma normalize_loop_full: "normalize_loop il il ps = replicate (length ps) 0"
  by (induction ps) auto

lemma normalize_loop_side:
  "c \<le> il \<Longrightarrow> list_all2 same_side ps (normalize_loop il c ps)"
proof (induction ps arbitrary: c)
  case Nil then show ?case by simp
next
  case (Cons p ps)
  show ?case
  proof (cases "c + \<bar>p\<bar> > il")
    case True
    have "same_side p ((il - c) * (if p > 0 then 1 else - 1))"
      using Cons.prems True by (auto simp: same_side_def)
    then show ?thesis using True Cons.IH[of il] by simp
  next
    case False
    then have "c + \<bar>p\<bar> \<le> il" by simp
    from Cons.IH[OF this] show ?thesis using False by (simp add: same_side_def)
  qed
qed

lemma normalize_loop_first_come:
  "used \<le> il \<Longrightarrow> normalize_loop il used ps = first_come_from il used ps"
  by (induction ps arbitrary: used) (auto simp: normalize_loop_full)

lemma update_slot_dir:
  assumes "update_slot d a p = (d', p', f)" "d \<in> {-1, 0, 1}"
  shows "d' \<in> {-1, 0, 1} \<and> (d \<noteq> 0 \<longrightarrow> d' = d) \<and> (d' = 0 \<longrightarrow> p' = 0) \<and> 0 \<le> p' * d'"
  using assms
  by (auto simp: update_slot_def split: if_splits simp: zero_less_mult_iff mult_less_0_iff not_less)

lemma update_loop_length:
  "update_loop d rs ps = Inr (ps', fs) \<Longrightarrow>
     length ps' = length ps \<and> length fs = length rs \<and> length rs \<le> length ps"
proof (induction d rs ps arbitrary: ps' fs rule: update_loop.induct)
  case (1 direction ps)
  then show ?case by simp
next
  case (2 direction a rest)
  then show ?case by simp
next
  case (3 direction a rest p ps)
  then show ?case
    by (fastforce split: prod.splits sum.splits)
qed

lemma locked_Cons:
  assumes "locked d' qs" "d1 \<noteq> 0 \<longrightarrow> d' = d1" "d1 = 0 \<longrightarrow> p1 = 0" "0 \<le> p1 * d1"
  shows "locked d' (p1 # qs)"
proof (cases "d1 = 0")
  case True
  with assms(3) have "p1 = 0" by simp
  with assms(1) show ?thesis by (simp add: locked_def)
next
  case False
  with assms(2) have "d' = d1" by simp
  with assms(1,4) False show ?thesis by (simp add: locked_def)
qed

lemma update_loop_dir:
  "update_loop d rs ps = Inr (ps', fs) \<Longrightarrow> length ps = length rs \<Longrightarrow> d \<in> {-1, 0, 1} \<Longrightarrow>
     \<exists>d'. locked d' ps' \<and> (d \<noteq> 0 \<longrightarrow> d' = d)"
proof (induction d rs ps arbitrary: ps' fs rule: update_loop.induct)
  case (1 direction ps)
  then show ?case by (auto simp: locked_def)
next
  case (2 direction a rest)
  then show ?case by simp
next
  case (3 direction a rest p ps)
  obtain d1 p1 f1 where st: "update_slot direction a p = (d1, p1, f1)"
    by (cases "update_slot direction a p") auto
  with "3.prems"(1) obtain qs gs where tl: "update_loop d1 rest ps = Inr (qs, gs)"
    and res: "ps' = p1 # qs"
    by (auto split: sum.splits)
  from update_slot_dir[OF st "3.prems"(3)]
  have d1: "d1 \<in> {-1, 0, 1}" and keep: "direction \<noteq> 0 \<longrightarrow> d1 = direction"
    and z: "d1 = 0 \<longrightarrow> p1 = 0" and sg: "0 \<le> p1 * d1" by blast+
  have len: "length ps = length rest" using "3.prems"(2) by simp
  from "3.IH"[OF st[symmetric] refl tl len d1]
  obtain d' where d': "locked d' qs" "d1 \<noteq> 0 \<longrightarrow> d' = d1" by blast
  have "locked d' (p1 # qs)" using locked_Cons[OF d' z sg] .
  moreover have "direction \<noteq> 0 \<longrightarrow> d' = direction" using keep d'(2) by auto
  ultimately show ?case using res by blast
qed

lemma locked_same_side:
  assumes "locked d xs" "list_all2 same_side xs rs" "i < length rs" "j < length rs"
  shows "0 \<le> rs ! i * rs ! j"
proof -
  have len: "length xs = length rs" using assms(2) by (rule list_all2_lengthD)
  have si: "same_side (xs ! i) (rs ! i)" and sj: "same_side (xs ! j) (rs ! j)"
    using assms(2,3,4) by (simp_all add: list_all2_nthD2)
  have xi: "(d = 0 \<longrightarrow> xs ! i = 0) \<and> 0 \<le> xs ! i * d"
    and xj: "(d = 0 \<longrightarrow> xs ! j = 0) \<and> 0 \<le> xs ! j * d"
    using assms(1,3,4) len by (simp_all add: locked_def)
  have d: "d = -1 \<or> d = 0 \<or> d = 1" using assms(1) by (simp add: locked_def)
  then show ?thesis using si sj xi xj
    by (auto simp: same_side_def zero_le_mult_iff)
qed

lemma replicate_zero_pairs:
  "i < Suc n \<Longrightarrow> j < Suc n \<Longrightarrow> 0 \<le> (x # replicate n (0::int)) ! i * (x # replicate n 0) ! j"
  by (cases i; cases j) simp_all

lemma normalize_pairs:
  assumes "locked d xs" "i < length xs" "j < length xs"
  shows "0 \<le> normalize il xs ! i * normalize il xs ! j"
proof (cases "0 \<le> il")
  case True
  then have "list_all2 same_side xs (normalize il xs)"
    unfolding normalize_def by (rule normalize_loop_side)
  from locked_same_side[OF assms(1) this] assms(2,3) show ?thesis
    by (simp add: normalize_def length_normalize_loop)
next
  case False
  show ?thesis
  proof (cases xs)
    case Nil
    with assms(2) show ?thesis by simp
  next
    case (Cons p ps)
    have "normalize il xs = (il * (if p > 0 then 1 else - 1)) # replicate (length ps) 0"
      using False by (simp add: normalize_def Cons normalize_loop_full)
    then show ?thesis using replicate_zero_pairs[of i "length ps" j] assms(2,3) Cons by simp
  qed
qed

lemma update_slot_sign: "update_slot d a p = (d', p', f) \<Longrightarrow> 0 \<le> p' * p"
  by (auto simp: update_slot_def not_less distrib_right split: if_splits)

lemma update_slot_flag: "update_slot d a p = (d', p', f) \<Longrightarrow> p' \<noteq> 0 \<Longrightarrow> f = 0"
  by (auto simp: update_slot_def split: if_splits)

lemma update_loop_sign:
  "update_loop d rs ps = Inr (ps', fs) \<Longrightarrow> i < length ps \<Longrightarrow> 0 \<le> ps' ! i * ps ! i"
proof (induction d rs ps arbitrary: ps' fs i rule: update_loop.induct)
  case (1 direction ps)
  then show ?case by simp
next
  case (2 direction a rest)
  then show ?case by simp
next
  case (3 direction a rest p ps)
  obtain d1 p1 f1 where st: "update_slot direction a p = (d1, p1, f1)"
    by (cases "update_slot direction a p") auto
  with "3.prems"(1) obtain qs gs where tl: "update_loop d1 rest ps = Inr (qs, gs)"
    and res: "ps' = p1 # qs"
    by (auto split: sum.splits)
  show ?case
  proof (cases i)
    case 0
    then show ?thesis using update_slot_sign[OF st] res by simp
  next
    case (Suc k)
    then show ?thesis using "3.IH"[OF st[symmetric] refl tl, of k] "3.prems"(2) res by simp
  qed
qed

lemma update_loop_flag:
  "update_loop d rs ps = Inr (ps', fs) \<Longrightarrow> i < length fs \<Longrightarrow> ps' ! i \<noteq> 0 \<Longrightarrow> fs ! i = 0"
proof (induction d rs ps arbitrary: ps' fs i rule: update_loop.induct)
  case (1 direction ps)
  then show ?case by simp
next
  case (2 direction a rest)
  then show ?case by simp
next
  case (3 direction a rest p ps)
  obtain d1 p1 f1 where st: "update_slot direction a p = (d1, p1, f1)"
    by (cases "update_slot direction a p") auto
  with "3.prems"(1) obtain qs gs where tl: "update_loop d1 rest ps = Inr (qs, gs)"
    and res: "ps' = p1 # qs" "fs = f1 # gs"
    by (auto split: sum.splits)
  show ?case
  proof (cases i)
    case 0
    then show ?thesis using update_slot_flag[OF st] res "3.prems"(3) by simp
  next
    case (Suc k)
    then show ?thesis using "3.IH"[OF st[symmetric] refl tl, of k] "3.prems"(2,3) res by simp
  qed
qed

lemma same_side_sign: "same_side q r \<Longrightarrow> 0 \<le> q * p \<Longrightarrow> 0 \<le> r * p"
  by (auto simp: same_side_def zero_le_mult_iff)

lemma foldE_append:
  "foldE f (xs @ ys) s = bindE (foldE f xs s) (foldE f ys)"
  by (induction xs arbitrary: s) (auto simp: bindE_def split: sum.splits)

section \<open>The ledger: claims\<close>

lemma ex_update_position:
  "update_position ex_ledger [1, 1] [80, 90] = Inr (ex_ledger\<lparr>pos := [80, 20]\<rparr>, 100, [0, 0])"
  by (simp add: ex_ledger_def Position_init_def update_position_def update_slot_def normalize_def
      numeral_2_eq_2)

lemma ex_mixed_book:
  "update_position (ex_ledger\<lparr>pos := [5, - 5]\<rparr>) [0, 0] [10, 10]
     = Inr (ex_ledger\<lparr>pos := [5, 0]\<rparr>, 5, [0, 1])"
  by (simp add: ex_ledger_def Position_init_def update_position_def update_slot_def normalize_def)

text \<open>
  Claim C1 (cap invariant). Whenever \<open>update_position\<close> returns and the ledger's
  \<open>inventory_limit\<close> is not negative, the absolute values of the resulting positions sum
  to at most \<open>inventory_limit\<close>, for every starting position list, signals list and asks
  list.
\<close>

theorem cap_invariant:
  assumes "update_position P sigs asks_abs = Inr (P', trades, aimd)"
    and "0 \<le> inventory_limit P"
  shows "sum_list (map abs (pos P')) \<le> inventory_limit P"
proof -
  from assms(1) obtain ps where P': "pos P' = normalize (inventory_limit P) ps"
    by (auto simp: update_position_def Let_def split: if_splits sum.splits)
  show ?thesis using normalize_loop_cap[OF assms(2), of ps] P' by (simp add: normalize_def)
qed

theorem cap_invariant_witness:
  "update_position ex_ledger [1, 1] [80, 90] = Inr (ex_ledger\<lparr>pos := [80, 20]\<rparr>, 100, [0, 0]) \<and>
   0 \<le> inventory_limit ex_ledger \<and>
   sum_list (map abs (pos (ex_ledger\<lparr>pos := [80, 20]\<rparr>))) \<le> inventory_limit ex_ledger"
proof -
  have h: "0 \<le> inventory_limit ex_ledger" by (simp add: ex_ledger_def Position_init_def)
  from cap_invariant[OF ex_update_position h] ex_update_position h show ?thesis by blast
qed

text \<open>
  Claim C2 (direction invariant), as amended. After a call of \<open>update_position\<close> that
  returns and whose signals list has one entry per slot of the ledger, any two resulting
  positions have a non-negative product: no two slots hold nonzero positions of opposite
  sign. This holds for every starting book, also one that mixes long and short slots, and
  for every limit.
\<close>

theorem direction_invariant:
  assumes "update_position P sigs asks_abs = Inr (P', trades, aimd)"
    and "length (pos P) = length sigs"
  shows "\<forall>i<length (pos P'). \<forall>j<length (pos P'). 0 \<le> pos P' ! i * pos P' ! j"
proof -
  let ?rs = "map2 (*) asks_abs sigs"
  from assms(1) obtain ps where loop: "update_loop 0 ?rs (pos P) = Inr (ps, aimd)"
    and P': "pos P' = normalize (inventory_limit P) ps"
    and len: "length ?rs = length sigs"
    by (auto simp: update_position_def Let_def split: if_splits sum.splits)
  from update_loop_dir[OF loop] assms(2) len obtain d where d: "locked d ps" by auto
  have "length (pos P') = length ps" using P' by (simp add: normalize_def length_normalize_loop)
  then show ?thesis using normalize_pairs[OF d] P' by simp
qed

theorem direction_invariant_witness:
  "update_position (ex_ledger\<lparr>pos := [5, - 5]\<rparr>) [0, 0] [10, 10]
     = Inr (ex_ledger\<lparr>pos := [5, 0]\<rparr>, 5, [0, 1]) \<and>
   length (pos (ex_ledger\<lparr>pos := [5, - 5]\<rparr>)) = length [0, 0 :: int] \<and>
   0 \<le> pos (ex_ledger\<lparr>pos := [5, 0]\<rparr>) ! 0 * pos (ex_ledger\<lparr>pos := [5, 0]\<rparr>) ! 1"
proof -
  have h: "length (pos (ex_ledger\<lparr>pos := [5, - 5]\<rparr>)) = length [0, 0 :: int]" by simp
  have "0 < length (pos (ex_ledger\<lparr>pos := [5, 0]\<rparr>))" "1 < length (pos (ex_ledger\<lparr>pos := [5, 0]\<rparr>))"
    by simp_all
  with direction_invariant[OF ex_mixed_book h] ex_mixed_book h show ?thesis by blast
qed

text \<open>
  Claim C2 as stated, for every returning call, fails when the signals list is shorter
  than the ledger: the slots beyond the signals are neither squared off nor normalised.
  A three-slot ledger first goes short 7 in slot 2; a second call with two long signals
  then returns with slots 0 and 1 long 10 beside the short slot 2.
\<close>

theorem direction_mixed_by_short_call:
  "update_position (Position_init 3 100 100) [0, 0, - 1] [5, 5, 7]
     = Inr (Position_init 3 100 100\<lparr>pos := [0, 0, - 7]\<rparr>, - 7, [0, 0, 0]) \<and>
   update_position (Position_init 3 100 100\<lparr>pos := [0, 0, - 7]\<rparr>) [1, 1] [10, 10]
     = Inr (Position_init 3 100 100\<lparr>pos := [10, 10, - 7]\<rparr>, 20, [0, 0]) \<and>
   pos (Position_init 3 100 100\<lparr>pos := [10, 10, - 7]\<rparr>) ! 0
     * pos (Position_init 3 100 100\<lparr>pos := [10, 10, - 7]\<rparr>) ! 2 < 0"
  by (simp add: Position_init_def update_position_def update_slot_def normalize_def
      numeral_3_eq_3)

text \<open>
  Claim C3 (first-come allocation). For a limit that is not negative, \<open>normalize\<close> computes
  exactly the allocation rule of the specification, \<open>first_come_from\<close> started with no
  capacity used: entries are kept while they fit, the first that does not fit is clamped
  to the remaining headroom with its sign, and all later entries become 0.
\<close>

theorem normalize_first_come:
  "0 \<le> il \<Longrightarrow> normalize il ps = first_come_from il 0 ps"
  unfolding normalize_def by (rule normalize_loop_first_come)

theorem normalize_first_come_witness:
  "(0::int) \<le> 100 \<and> normalize 100 [80, - 90, 5, 0] = first_come_from 100 0 [80, - 90, 5, 0] \<and>
   first_come_from 100 0 [80, - 90, 5, 0] = [80, - 20, 0, 0]"
proof -
  have h: "(0::int) \<le> 100" by simp
  have "first_come_from 100 0 [80, - 90, 5, 0] = [80, - 20, 0, 0]" by simp
  with normalize_first_come[OF h, of "[80, - 90, 5, 0]"] h show ?thesis by blast
qed

text \<open>
  Claim C9 (per-slot sign preservation), as amended. When the ledger's \<open>inventory_limit\<close>
  is not negative, a call of \<open>update_position\<close> that returns keeps the number of slots and
  never turns a slot to the opposite sign: the product of the final and the initial
  position of every slot is non-negative.
\<close>

theorem slot_sign_kept:
  assumes "update_position P sigs asks_abs = Inr (P', trades, aimd)"
    and "0 \<le> inventory_limit P"
  shows "length (pos P') = length (pos P) \<and> (\<forall>i<length (pos P). 0 \<le> pos P' ! i * pos P ! i)"
proof -
  let ?rs = "map2 (*) asks_abs sigs"
  from assms(1) obtain ps where loop: "update_loop 0 ?rs (pos P) = Inr (ps, aimd)"
    and P': "pos P' = normalize (inventory_limit P) ps"
    by (auto simp: update_position_def Let_def split: if_splits sum.splits)
  have len: "length ps = length (pos P)" using update_loop_length[OF loop] by simp
  have side: "list_all2 same_side ps (pos P')"
    unfolding P' normalize_def using assms(2) by (rule normalize_loop_side)
  have "0 \<le> pos P' ! i * pos P ! i" if "i < length (pos P)" for i
  proof -
    have "same_side (ps ! i) (pos P' ! i)" using side that len by (simp add: list_all2_nthD)
    moreover have "0 \<le> ps ! i * pos P ! i" using update_loop_sign[OF loop that] .
    ultimately show ?thesis by (rule same_side_sign)
  qed
  moreover have "length (pos P') = length (pos P)"
    using len P' by (simp add: normalize_def length_normalize_loop)
  ultimately show ?thesis by simp
qed

theorem slot_sign_kept_witness:
  "update_position (ex_ledger\<lparr>pos := [5, - 5]\<rparr>) [0, 0] [10, 10]
     = Inr (ex_ledger\<lparr>pos := [5, 0]\<rparr>, 5, [0, 1]) \<and>
   0 \<le> inventory_limit (ex_ledger\<lparr>pos := [5, - 5]\<rparr>) \<and>
   length (pos (ex_ledger\<lparr>pos := [5, 0]\<rparr>)) = length (pos (ex_ledger\<lparr>pos := [5, - 5]\<rparr>)) \<and>
   0 \<le> pos (ex_ledger\<lparr>pos := [5, 0]\<rparr>) ! 1 * pos (ex_ledger\<lparr>pos := [5, - 5]\<rparr>) ! 1"
proof -
  have h: "0 \<le> inventory_limit (ex_ledger\<lparr>pos := [5, - 5]\<rparr>)"
    by (simp add: ex_ledger_def Position_init_def)
  have "1 < length (pos (ex_ledger\<lparr>pos := [5, - 5]\<rparr>))" by simp
  with slot_sign_kept[OF ex_mixed_book h] ex_mixed_book h show ?thesis by blast
qed

text \<open>
  Claim C9 as stated, for every ledger, fails under a negative limit. A one-slot ledger
  built with limit -10 answers a long request of 5 with the position -10, and on the next
  call, without any signal, normalisation turns that short position into the long
  position 10.
\<close>

theorem slot_sign_flipped:
  "update_position (Position_init 1 (- 10) 100) [1] [5]
     = Inr (Position_init 1 (- 10) 100\<lparr>pos := [- 10]\<rparr>, - 10, [0]) \<and>
   update_position (Position_init 1 (- 10) 100\<lparr>pos := [- 10]\<rparr>) [0] [5]
     = Inr (Position_init 1 (- 10) 100\<lparr>pos := [10]\<rparr>, 20, [0]) \<and>
   pos (Position_init 1 (- 10) 100\<lparr>pos := [10]\<rparr>) ! 0
     * pos (Position_init 1 (- 10) 100\<lparr>pos := [- 10]\<rparr>) ! 0 < 0"
  by (simp add: Position_init_def update_position_def update_slot_def normalize_def)

section \<open>The ask sizer: claims\<close>

lemma foldE_snoc: "foldE f (xs @ [x]) s = bindE (foldE f xs s) (f x)"
  by (simp add: foldE_append bindE_def split: sum.splits)

lemma max_trunc: "max 1 (if 0 \<le> x then \<lfloor>x\<rfloor> else \<lceil>x :: real\<rceil>) = max 1 \<lfloor>x\<rfloor>"
proof (cases "0 \<le> x")
  case True then show ?thesis by simp
next
  case False
  then have "\<lceil>x\<rceil> \<le> 0" "\<lfloor>x\<rfloor> \<le> 0" by (simp_all add: ceiling_le_iff floor_le_iff)
  with False show ?thesis by (simp add: max_def)
qed

lemma py_int_Inr: "py_int p = Inr k \<Longrightarrow> \<exists>x. p = Finite x \<and> max 1 k = max 1 \<lfloor>x\<rfloor>"
  by (cases p) (auto simp: py_int_def max_trunc)

lemma aimd_step_Inr:
  assumes "aimd_step fm ra pm pnl aimd i xs = Inr ys" and "i < length xs"
  shows "i < length pnl \<and> (float_ne0 (pnl ! i) \<longrightarrow> i < length aimd) \<and>
         length ys = length xs \<and> (\<forall>j. j \<noteq> i \<longrightarrow> ys ! j = xs ! j) \<and>
         aimd_rule fm ra pm (pnl ! i) (aimd ! i) (xs ! i) (ys ! i)"
proof -
  from assms(1) have i: "i < length pnl"
    by (auto simp: aimd_step_def getitem_def bindE_def split: if_splits)
  show ?thesis
  proof (cases "float_ne0 (pnl ! i)")
    case False
    with assms(1) i show ?thesis
      by (simp add: aimd_step_def getitem_def bindE_def aimd_rule_def)
  next
    case ne: True
    with assms(1) i have j: "i < length aimd"
      by (auto simp: aimd_step_def getitem_def bindE_def split: if_splits)
    show ?thesis
    proof (cases "aimd ! i = 1")
      case False
      with assms(1) i j ne show ?thesis
        by (simp add: aimd_step_def getitem_def bindE_def aimd_rule_def)
    next
      case flag: True
      show ?thesis
      proof (cases "float_gt0 (pnl ! i)")
        case True
        with assms i j ne flag show ?thesis
          by (auto simp: aimd_step_def getitem_def bindE_def aimd_rule_def)
      next
        case False
        with assms(1) i j ne flag obtain p k where p: "fm (xs ! i) pm = Inr p"
          and k: "py_int p = Inr k" and ys: "ys = xs[i := max 1 k]"
          by (auto simp: aimd_step_def getitem_def bindE_Inr)
        from py_int_Inr[OF k] obtain x where "p = Finite x" "max 1 k = max 1 \<lfloor>x\<rfloor>" by blast
        with p ys assms(2) i j ne flag False show ?thesis
          by (simp add: aimd_rule_def)
      qed
    qed
  qed
qed

lemma aimd_loop:
  "foldE (aimd_step fm ra pm pnl aimd) [0..<n] xs = Inr ys \<Longrightarrow> n \<le> length xs \<Longrightarrow>
     length ys = length xs \<and> n \<le> length pnl \<and>
     (\<forall>i<n. (float_ne0 (pnl ! i) \<longrightarrow> i < length aimd) \<and>
             aimd_rule fm ra pm (pnl ! i) (aimd ! i) (xs ! i) (ys ! i)) \<and>
     (\<forall>i\<ge>n. ys ! i = xs ! i)"
proof (induction n arbitrary: ys)
  case 0
  then show ?case by simp
next
  case (Suc n)
  from Suc.prems(1) obtain zs where zs: "foldE (aimd_step fm ra pm pnl aimd) [0..<n] xs = Inr zs"
    and st: "aimd_step fm ra pm pnl aimd n zs = Inr ys"
    by (auto simp: foldE_snoc bindE_Inr)
  from Suc.IH[OF zs] Suc.prems(2)
  have len: "length zs = length xs" and n: "n \<le> length pnl"
    and low: "\<forall>i<n. (float_ne0 (pnl ! i) \<longrightarrow> i < length aimd) \<and>
                     aimd_rule fm ra pm (pnl ! i) (aimd ! i) (xs ! i) (zs ! i)"
    and high: "\<forall>i\<ge>n. zs ! i = xs ! i" by simp_all
  have "n < length zs" using len Suc.prems(2) by simp
  from aimd_step_Inr[OF st this]
  have s: "n < length pnl" "float_ne0 (pnl ! n) \<longrightarrow> n < length aimd" "length ys = length zs"
    "\<forall>j. j \<noteq> n \<longrightarrow> ys ! j = zs ! j" "aimd_rule fm ra pm (pnl ! n) (aimd ! n) (zs ! n) (ys ! n)"
    by simp_all
  have "(float_ne0 (pnl ! i) \<longrightarrow> i < length aimd) \<and>
        aimd_rule fm ra pm (pnl ! i) (aimd ! i) (xs ! i) (ys ! i)" if "i < Suc n" for i
  proof (cases "i = n")
    case True
    with s(2,5) high show ?thesis by simp
  next
    case False
    with that have "i < n" by simp
    with low s(4) False show ?thesis by simp
  qed
  moreover have "ys ! i = xs ! i" if "Suc n \<le> i" for i
    using that s(4) high by simp
  ultimately show ?case using s(1,3) len by simp
qed

lemma upt_4: "[0..<4] = [0, 1, 2, 3]"
  by (simp add: upt_rec)

lemma ex_update:
  "update exact_mul ex_sizer [Finite 5, Finite (- 2), Finite (- 1), Finite 7] [1, 1, 1, 0]
     = Inr (ex_sizer\<lparr>asks := [43, 5, 1, 10]\<rparr>)"
  by (simp add: update_def ex_sizer_def aimd_step_def getitem_def bindE_def py_int_def upt_4
      exact_mul_def float_ne0_def float_gt0_def)

text \<open>
  Claim C4 (AIMD update rule), as amended. Whenever \<open>Asks.update\<close> returns, it has read one
  PnL per slot and a flag for every slot whose PnL is not zero, it keeps the number of
  slots and the two parameters, and every slot obeys the rule: the rule rewrites slot
  \<open>i\<close> exactly when the flag is 1 and the PnL is not zero; the written ask is the old ask
  plus \<open>reward_add\<close> when the PnL is positive, and otherwise
  \<open>max 1 (floor p)\<close> where \<open>p\<close> is the finite product that the runtime computes for
  \<open>old ask * penalty_mult\<close>; every other slot keeps its ask. (\<open>int\<close> truncates toward zero,
  which under \<open>max 1\<close> agrees with the floor; the written ask may equal the old one. A NaN
  PnL counts as not zero and not positive.)
\<close>

theorem aimd_update_rule:
  assumes "update fm A last_traded_pnl aimd = Inr A'"
  shows "length (asks A') = length (asks A) \<and>
         reward_add A' = reward_add A \<and> penalty_mult A' = penalty_mult A \<and>
         length (asks A) \<le> length last_traded_pnl \<and>
         (\<forall>i<length (asks A).
            (float_ne0 (last_traded_pnl ! i) \<longrightarrow> i < length aimd) \<and>
            aimd_rule fm (reward_add A) (penalty_mult A) (last_traded_pnl ! i) (aimd ! i)
              (asks A ! i) (asks A' ! i))"
proof -
  from assms obtain ys where
    loop: "foldE (aimd_step fm (reward_add A) (penalty_mult A) last_traded_pnl aimd)
             [0..<length (asks A)] (asks A) = Inr ys"
    and A': "A' = A\<lparr>asks := ys\<rparr>"
    by (auto simp: update_def bindE_Inr)
  from aimd_loop[OF loop] A' show ?thesis by simp
qed

theorem aimd_update_rule_witness:
  "update exact_mul ex_sizer [Finite 5, Finite (- 2), Finite (- 1), Finite 7] [1, 1, 1, 0]
     = Inr (ex_sizer\<lparr>asks := [43, 5, 1, 10]\<rparr>) \<and>
   length (asks (ex_sizer\<lparr>asks := [43, 5, 1, 10]\<rparr>)) = length (asks ex_sizer) \<and>
   aimd_rule exact_mul (reward_add ex_sizer) (penalty_mult ex_sizer)
     ([Finite 5, Finite (- 2), Finite (- 1), Finite 7] ! 1) ([1, 1, 1, 0] ! 1)
     (asks ex_sizer ! 1) (asks (ex_sizer\<lparr>asks := [43, 5, 1, 10]\<rparr>) ! 1) \<and>
   asks (ex_sizer\<lparr>asks := [43, 5, 1, 10]\<rparr>) ! 1 = max 1 \<lfloor>10 * (1 / 2 :: real)\<rfloor>"
proof -
  have l: "1 < length (asks ex_sizer)" by (simp add: ex_sizer_def)
  have v: "asks (ex_sizer\<lparr>asks := [43, 5, 1, 10]\<rparr>) ! 1 = max 1 \<lfloor>10 * (1 / 2 :: real)\<rfloor>"
    by simp
  from aimd_update_rule[OF ex_update] l ex_update v show ?thesis by blast
qed

text \<open>
  Claim C4 as stated fails in its first half: a slot whose flag is set and whose PnL is
  not zero need not change. At the floor, the ask 1 with penalty one half is rewritten to
  \<open>max 1 (floor 0.5) = 1\<close>.
\<close>

theorem aimd_flagged_slot_unchanged:
  "update exact_mul \<lparr>asks_num_strats = 1, asks = [1], reward_add = 33, penalty_mult = Finite (1 / 2)\<rparr>
     [Finite (- 1)] [1]
     = Inr \<lparr>asks_num_strats = 1, asks = [1], reward_add = 33, penalty_mult = Finite (1 / 2)\<rparr> \<and>
   [1 :: int] ! 0 = 1 \<and> float_ne0 ([Finite (- 1)] ! 0)"
  by (simp add: update_def aimd_step_def getitem_def bindE_def py_int_def exact_mul_def
      float_ne0_def float_gt0_def)

section \<open>NumPy scalars\<close>

lemma sint_in_int64: "in_int64 (sint (w :: 64 word))"
  using sint_ge[of w] sint_lt[of w] by (simp add: in_int64_def)

lemma sint_word_of_int: "in_int64 n \<Longrightarrow> sint (word_of_int n :: 64 word) = n"
  by (simp add: in_int64_def sint_sbintrunc' signed_take_bit_int_eq_self)

lemma same_int64_refl: "same_int64 a a"
  by (simp add: same_int64_def)

lemma same_int64_sym: "same_int64 a b \<Longrightarrow> same_int64 b a"
  by (simp add: same_int64_def)

lemma same_int64_trans: "same_int64 a b \<Longrightarrow> same_int64 b c \<Longrightarrow> same_int64 a c"
  by (simp add: same_int64_def)

lemma same_int64_add: "same_int64 a b \<Longrightarrow> same_int64 c d \<Longrightarrow> same_int64 (a + c) (b + d)"
  by (simp add: same_int64_def wi_hom_syms)

lemma same_int64_diff: "same_int64 a b \<Longrightarrow> same_int64 c d \<Longrightarrow> same_int64 (a - c) (b - d)"
  by (simp add: same_int64_def wi_hom_syms)

lemma same_int64_minus: "same_int64 a b \<Longrightarrow> same_int64 (- a) (- b)"
  by (simp add: same_int64_def wi_hom_syms)

lemma same_int64_exact: "same_int64 a b \<Longrightarrow> in_int64 a \<Longrightarrow> in_int64 b \<Longrightarrow> a = b"
proof -
  assume e: "same_int64 a b" and a: "in_int64 a" and b: "in_int64 b"
  from e have "sint (word_of_int a :: 64 word) = sint (word_of_int b :: 64 word)"
    unfolding same_int64_def by (rule arg_cong)
  then show "a = b" by (simp only: sint_word_of_int[OF a] sint_word_of_int[OF b])
qed

lemma abs_small_in_int64: "\<bar>x\<bar> < 2 ^ 63 \<Longrightarrow> in_int64 x"
  by (simp add: in_int64_def abs_less_iff)

lemma np_val_Int64: "in_int64 (np_val (Int64 w))"
  by (simp add: np_val_def sint_in_int64)

lemma np_add_Inr: "np_add a b = Inr c \<Longrightarrow> same_int64 (np_val c) (np_val a + np_val b)"
  by (cases a; cases b)
    (auto simp: np_add_def bindE_Inr same_int64_def np_val_def as_int64_def wi_hom_syms
      split: if_splits)

lemma np_sub_Inr: "np_sub a b = Inr c \<Longrightarrow> same_int64 (np_val c) (np_val a - np_val b)"
  by (cases a; cases b)
    (auto simp: np_sub_def bindE_Inr same_int64_def np_val_def as_int64_def wi_hom_syms
      split: if_splits)

lemma np_mul_Inr: "np_mul a b = Inr c \<Longrightarrow> same_int64 (np_val c) (np_val a * np_val b)"
  by (cases a; cases b)
    (auto simp: np_mul_def bindE_Inr same_int64_def np_val_def as_int64_def wi_hom_syms
      split: if_splits)

lemma np_add_PyInt: "np_add (PyInt x) (PyInt y) = Inr (PyInt (x + y))"
  by (simp add: np_add_def)

lemma np_op_Int64:
  "np_add a (Int64 w) = Inr c \<Longrightarrow> \<exists>v. c = Int64 v"
  "np_sub a (Int64 w) = Inr c \<Longrightarrow> \<exists>v. c = Int64 v"
  "np_mul a (Int64 w) = Inr c \<Longrightarrow> \<exists>v. c = Int64 v"
  "np_add (Int64 w) a = Inr c \<Longrightarrow> \<exists>v. c = Int64 v"
  by (cases a; auto simp: np_add_def np_sub_def np_mul_def bindE_Inr)+

lemma np_abs_same: "same_int64 (np_val (np_abs a)) \<bar>np_val a\<bar>"
  by (cases a) (auto simp: np_abs_def same_int64_def np_val_def wi_hom_syms abs_if)

lemma np_abs_exact:
  assumes "np_val a \<noteq> - (2 ^ 63)" shows "np_val (np_abs a) = \<bar>np_val a\<bar>"
proof (cases a)
  case (PyInt n)
  then show ?thesis by (simp add: np_abs_def np_val_def)
next
  case (Int64 w)
  have r: "in_int64 (sint w)" by (rule sint_in_int64)
  with assms Int64 have "in_int64 (- sint w)" by (simp add: in_int64_def np_val_def)
  then have "sint (- w) = - sint w"
    by (simp add: sint_word_minus in_int64_def signed_take_bit_int_eq_self)
  with Int64 show ?thesis by (simp add: np_abs_def np_val_def)
qed

lemma np_sign_Inr:
  "np_sign a = Inr sg \<Longrightarrow> np_val sg = sgn (np_val a) \<and> (\<exists>w. sg = Int64 w) \<and> in_int64 (np_val a)"
proof (cases a)
  case (PyInt n)
  assume "np_sign a = Inr sg"
  with PyInt have r: "in_int64 n" "sg = Int64 (word_of_int (sgn n))"
    by (auto simp: np_sign_def split: if_splits)
  have "in_int64 (sgn n)" by (simp add: in_int64_def sgn_if)
  with r PyInt show ?thesis by (simp add: np_val_def sint_word_of_int)
next
  case (Int64 w)
  assume "np_sign a = Inr sg"
  with Int64 have r: "sg = Int64 (word_of_int (sgn (sint w)))"
    by (auto simp: np_sign_def)
  have "in_int64 (sgn (sint w))" by (simp add: in_int64_def sgn_if)
  with r Int64 show ?thesis by (simp add: np_val_def sint_word_of_int sint_in_int64)
qed

lemma py_min_val: "np_val (py_min a b) = min (np_val a) (np_val b)"
  by (simp add: py_min_def min_def)

text \<open>The quantity of a release, as the code computes it.\<close>

lemma release_quantity:
  assumes sg: "np_sign b = Inr sg"
    and q: "np_mul (py_min (np_abs b) (PyInt lmt)) sg = Inr q"
  shows "\<exists>w. q = Int64 w"
    and "0 < lmt \<Longrightarrow> np_val b \<noteq> - (2 ^ 63) \<Longrightarrow>
           np_val q = sgn (np_val b) * min \<bar>np_val b\<bar> lmt \<and> np_val q \<noteq> - (2 ^ 63) \<and>
           in_int64 (np_val b - np_val q)"
proof -
  from np_sign_Inr[OF sg] obtain w where s: "np_val sg = sgn (np_val b)" "sg = Int64 w"
    and r: "in_int64 (np_val b)" by blast
  from q s(2) show i: "\<exists>w. q = Int64 w" using np_op_Int64(3) by blast
  assume lmt: "0 < lmt" and nm: "np_val b \<noteq> - (2 ^ 63)"
  let ?B = "np_val b"
  have m: "np_val (py_min (np_abs b) (PyInt lmt)) = min \<bar>?B\<bar> lmt"
    by (simp add: py_min_val np_abs_exact[OF nm]) (simp add: np_val_def)
  from np_mul_Inr[OF q] have e: "same_int64 (np_val q) (min \<bar>?B\<bar> lmt * sgn ?B)"
    by (simp add: m s(1))
  have b: "\<bar>?B\<bar> < 2 ^ 63" using r nm by (simp add: in_int64_def abs_if)
  have "\<bar>min \<bar>?B\<bar> lmt * sgn ?B\<bar> \<le> \<bar>?B\<bar>" using lmt by (simp add: abs_mult min_def abs_sgn_eq)
  with b have "\<bar>min \<bar>?B\<bar> lmt * sgn ?B\<bar> < 2 ^ 63" by linarith
  then have rq: "in_int64 (min \<bar>?B\<bar> lmt * sgn ?B)" by (rule abs_small_in_int64)
  from i have "in_int64 (np_val q)" using np_val_Int64 by blast
  from same_int64_exact[OF e this rq] have v: "np_val q = sgn ?B * min \<bar>?B\<bar> lmt" by (simp add: mult.commute)
  have "\<bar>np_val q\<bar> \<le> \<bar>?B\<bar>" unfolding v using lmt by (simp add: abs_mult min_def abs_sgn_eq)
  with b have q1: "\<bar>np_val q\<bar> < 2 ^ 63" by linarith
  have "\<bar>?B - np_val q\<bar> \<le> \<bar>?B\<bar>" unfolding v using lmt
    by (simp add: min_def sgn_if abs_if)
  with b have "\<bar>?B - np_val q\<bar> < 2 ^ 63" by linarith
  then have "in_int64 (?B - np_val q)" by (rule abs_small_in_int64)
  moreover from q1 have "np_val q \<noteq> - (2 ^ 63)" by auto
  ultimately show "np_val q = sgn ?B * min \<bar>?B\<bar> lmt \<and> np_val q \<noteq> - (2 ^ 63) \<and>
           in_int64 (?B - np_val q)"
    using v by blast
qed

section \<open>The tick protocol: stages\<close>

lemma mapE_length: "mapE f xs = Inr ys \<Longrightarrow> length ys = length xs"
  by (induction xs arbitrary: ys) (auto simp: bindE_Inr)

lemma begin_tick_fields:
  assumes "begin_tick ops s tk d = Inr s4"
  shows "trade_backlog s4 = trade_backlog s" "current_inventory s4 = current_inventory s"
    "position s4 = position s" "trade_book s4 = trade_book s"
    "cooldown_period s4 = cooldown_period s" "o_trade_limit s4 = o_trade_limit s"
    "current_pointer s4 = time_to_seconds (Time tk)" "current_day s4 = Some d"
    "last_trade_time s4 = (if current_day s = Some d then last_trade_time s else - cooldown_period s)"
    "eod_squared_off s4 = (current_day s = Some d \<and> eod_squared_off s)"
    "day_length s4 = day_length s" "current_asks s4 = current_asks s"
    "entry_prices s4 = entry_prices s" "entry_times s4 = entry_times s"
    "tran_cost s4 = tran_cost s" "o_num_strats s4 = o_num_strats s"
    "length (strategies s4) = length (strategies s)" "snapshot_period s \<noteq> 0"
    "snapshot_period s4 = snapshot_period s"
  using assms
  by (auto simp: begin_tick_def Let_def bindE_Inr portfolio_snapshot_def
      split: if_splits dest: mapE_length)

lemma execute_trade_unfold:
  assumes "execute_trade ops s tk = Inr s1"
  obtains sg q b1 i1 where "np_sign (trade_backlog s) = Inr sg"
    and "np_mul (py_min (np_abs (trade_backlog s)) (PyInt (o_trade_limit s))) sg = Inr q"
    and "np_sub (trade_backlog s) q = Inr b1" and "np_add (current_inventory s) q = Inr i1"
    and "trade_backlog s1 = b1" and "current_inventory s1 = i1"
    and "trade_book s1 = trade_book s @
           [\<lparr>tb_Time = Time tk, tb_Price = float_round ops (Price tk) 3,
             tb_Quantity = np_val (np_abs q),
             tb_Side = (if np_val q > 0 then Buy else Sell),
             tb_Inventory = sum_list (pos (position s)),
             tb_Transaction_Cost = float_round ops
               (tran_cost s * Price tk * real_of_int (np_val (np_abs (np_abs q)))) 4,
             tb_Day = current_day s\<rparr>]"
  using assms
  by (auto simp: execute_trade_def bindE_Inr Let_def log_order_def)

lemma execute_trade_fields:
  assumes "execute_trade ops s tk = Inr s1"
  shows "position s1 = position s" "last_trade_time s1 = current_pointer s"
    "cooldown_period s1 = cooldown_period s" "current_day s1 = current_day s"
    "o_trade_limit s1 = o_trade_limit s" "day_length s1 = day_length s"
    "eod_squared_off s1 = eod_squared_off s" "snapshot_period s1 = snapshot_period s"
  using assms
  by (auto simp: execute_trade_def bindE_Inr Let_def log_order_def)

lemma signed_qty_same:
  assumes "tb_Quantity r = np_val (np_abs q)" "tb_Side r = (if np_val q > 0 then Buy else Sell)"
  shows "same_int64 (signed_qty r) (np_val q)"
    and "np_val q \<noteq> - (2 ^ 63) \<Longrightarrow> signed_qty r = np_val q"
proof -
  have a: "same_int64 (np_val (np_abs q)) \<bar>np_val q\<bar>" by (rule np_abs_same)
  show "same_int64 (signed_qty r) (np_val q)"
  proof (cases "np_val q > 0")
    case True
    with a assms show ?thesis by (simp add: signed_qty_def)
  next
    case False
    with same_int64_minus[OF a] assms show ?thesis by (simp add: signed_qty_def)
  qed
  assume "np_val q \<noteq> - (2 ^ 63)"
  from np_abs_exact[OF this] assms show "signed_qty r = np_val q"
    by (simp add: signed_qty_def)
qed

lemma execute_trade_release:
  assumes "execute_trade ops s tk = Inr s1"
  shows "\<exists>r. trade_book s1 = trade_book s @ [r] \<and> tb_Time r = Time tk \<and>
           same_int64 (backlog_val s1) (backlog_val s - signed_qty r) \<and>
           same_int64 (inventory_val s1) (inventory_val s + signed_qty r) \<and>
           (0 < o_trade_limit s \<and> backlog_val s \<noteq> - (2 ^ 63) \<longrightarrow>
              signed_qty r = release_qty s \<and> backlog_val s1 = backlog_val s - release_qty s)"
    and "\<exists>w. trade_backlog s1 = Int64 w" and "\<exists>w. current_inventory s1 = Int64 w"
proof -
  from assms obtain sg q b1 i1 r where sg: "np_sign (trade_backlog s) = Inr sg"
    and q: "np_mul (py_min (np_abs (trade_backlog s)) (PyInt (o_trade_limit s))) sg = Inr q"
    and b1: "np_sub (trade_backlog s) q = Inr b1" and i1: "np_add (current_inventory s) q = Inr i1"
    and f: "trade_backlog s1 = b1" "current_inventory s1 = i1"
    and book: "trade_book s1 = trade_book s @ [r]"
    and r: "tb_Time r = Time tk" "tb_Quantity r = np_val (np_abs q)"
      "tb_Side r = (if np_val q > 0 then Buy else Sell)"
    by (elim execute_trade_unfold) simp
  note rq = release_quantity[OF sg q]
  from rq(1) obtain w where w: "q = Int64 w" by blast
  from b1 i1 w show i: "\<exists>w. trade_backlog s1 = Int64 w" "\<exists>w. current_inventory s1 = Int64 w"
    using np_op_Int64(1,2) f by blast+
  note sq = signed_qty_same[OF r(2,3)]
  have e1: "same_int64 (backlog_val s1) (backlog_val s - signed_qty r)"
    unfolding backlog_val_def f
    by (rule same_int64_trans[OF np_sub_Inr[OF b1]])
       (rule same_int64_diff[OF same_int64_refl same_int64_sym[OF sq(1)]])
  have e2: "same_int64 (inventory_val s1) (inventory_val s + signed_qty r)"
    unfolding inventory_val_def f
    by (rule same_int64_trans[OF np_add_Inr[OF i1]])
       (rule same_int64_add[OF same_int64_refl same_int64_sym[OF sq(1)]])
  have "signed_qty r = release_qty s \<and> backlog_val s1 = backlog_val s - release_qty s"
    if h: "0 < o_trade_limit s" "backlog_val s \<noteq> - (2 ^ 63)"
  proof -
    from h(2) have "np_val (trade_backlog s) \<noteq> - (2 ^ 63)" by (simp add: backlog_val_def)
    from rq(2)[OF h(1) this]
    have v1: "np_val q = sgn (np_val (trade_backlog s)) * min \<bar>np_val (trade_backlog s)\<bar> (o_trade_limit s)"
      and v2: "np_val q \<noteq> - (2 ^ 63)"
      and v3: "in_int64 (np_val (trade_backlog s) - np_val q)" by blast+
    have v: "np_val q = release_qty s" "np_val q \<noteq> - (2 ^ 63)"
      "in_int64 (backlog_val s - release_qty s)"
      using v2 v3 unfolding release_qty_def backlog_val_def v1[symmetric] by simp_all
    from sq(2)[OF v(2)] v(1) have s: "signed_qty r = release_qty s" by simp
    from i(1) have "in_int64 (backlog_val s1)" unfolding backlog_val_def using np_val_Int64 by auto
    from same_int64_exact[OF e1 this] v(3) s v(1) show ?thesis by simp
  qed
  with book r(1) e1 e2
  show "\<exists>r. trade_book s1 = trade_book s @ [r] \<and> tb_Time r = Time tk \<and>
           same_int64 (backlog_val s1) (backlog_val s - signed_qty r) \<and>
           same_int64 (inventory_val s1) (inventory_val s + signed_qty r) \<and>
           (0 < o_trade_limit s \<and> backlog_val s \<noteq> - (2 ^ 63) \<longrightarrow>
              signed_qty r = release_qty s \<and> backlog_val s1 = backlog_val s - release_qty s)"
    by blast
qed

lemma square_off_fields:
  assumes "square_off ops s = Inr s'"
  shows "np_add (trade_backlog s) (PyInt (- sum_list (pos (position s)))) = Inr (trade_backlog s')"
    "current_inventory s' = current_inventory s"
    "pos (position s') = replicate (nat (num_strats (position s))) 0"
    "trade_book s' = trade_book s" "last_trade_time s' = last_trade_time s"
    "cooldown_period s' = cooldown_period s" "current_day s' = current_day s"
    "eod_squared_off s'" "o_trade_limit s' = o_trade_limit s" "day_length s' = day_length s"
    "snapshot_period s' = snapshot_period s"
  using assms
  by (auto simp: square_off_def Let_def bindE_Inr reset_position_def)

lemma update_position_trades:
  "update_position P sg asks_abs = Inr (P', trades, aimd) \<Longrightarrow>
     trades = sum_list (pos P') - sum_list (pos P)"
  by (auto simp: update_position_def Let_def split: if_splits sum.splits)

lemma trade_entries_fields:
  assumes "trade_entries ops s tk = Inr (s', prev_pos, aimd)"
  shows "np_add (trade_backlog s)
           (PyInt (sum_list (pos (position s')) - sum_list (pos (position s)))) = Inr (trade_backlog s')"
    "current_inventory s' = current_inventory s"
    "trade_book s' = trade_book s" "last_trade_time s' = last_trade_time s"
    "cooldown_period s' = cooldown_period s" "current_day s' = current_day s"
    "o_trade_limit s' = o_trade_limit s" "day_length s' = day_length s"
    "eod_squared_off s' = eod_squared_off s" "snapshot_period s' = snapshot_period s"
    "prev_pos = pos (position s)" "current_asks s' = current_asks s"
    "total_fee s' = total_fee s" "tran_cost s' = tran_cost s" "o_num_strats s' = o_num_strats s"
  using assms
  by (auto simp: trade_entries_def Let_def bindE_Inr dest: update_position_trades)

lemma trade_phase_unfold:
  assumes "trade_phase ops s tk = Inr s'"
  obtains s1 prev_pos aimd pnl_list fee A where
    "trade_entries ops s tk = Inr (s1, prev_pos, aimd)"
    "compute_strategy_pnl s1 (Price tk) prev_pos (pos (position s1)) = Inr (pnl_list, fee)"
    "update (float_mul ops) (current_asks s1) pnl_list aimd = Inr A"
    "s' = s1\<lparr>total_fee := fee, current_asks := A\<rparr>"
  using assms by (auto simp: trade_phase_def bindE_Inr)

lemma trade_phase_fields:
  assumes "trade_phase ops s tk = Inr s'"
  shows "np_add (trade_backlog s)
           (PyInt (sum_list (pos (position s')) - sum_list (pos (position s)))) = Inr (trade_backlog s')"
    "current_inventory s' = current_inventory s"
    "trade_book s' = trade_book s" "last_trade_time s' = last_trade_time s"
    "cooldown_period s' = cooldown_period s" "current_day s' = current_day s"
    "o_trade_limit s' = o_trade_limit s" "day_length s' = day_length s"
    "eod_squared_off s' = eod_squared_off s" "snapshot_period s' = snapshot_period s"
proof -
  from assms obtain s1 prev_pos aimd pnl_list fee A where
    e: "trade_entries ops s tk = Inr (s1, prev_pos, aimd)"
    and s': "s' = s1\<lparr>total_fee := fee, current_asks := A\<rparr>"
    by (rule trade_phase_unfold)
  note f = trade_entries_fields[OF e]
  show "np_add (trade_backlog s)
           (PyInt (sum_list (pos (position s')) - sum_list (pos (position s)))) = Inr (trade_backlog s')"
    "current_inventory s' = current_inventory s"
    "trade_book s' = trade_book s" "last_trade_time s' = last_trade_time s"
    "cooldown_period s' = cooldown_period s" "current_day s' = current_day s"
    "o_trade_limit s' = o_trade_limit s" "day_length s' = day_length s"
    "eod_squared_off s' = eod_squared_off s" "snapshot_period s' = snapshot_period s"
    using f unfolding s' by simp_all
qed

lemma process_tick_unfold:
  assumes "process_tick ops s tk d = Inr s1"
  obtains s4 where "begin_tick ops s tk d = Inr s4"
    and "(if np_val (trade_backlog s4) \<noteq> 0
             \<and> current_pointer s4 - last_trade_time s4 > cooldown_period s4
          then execute_trade ops s4 tk
          else if eod_squared_off s4 then Inr s4
          else if current_pointer s4 \<ge> day_length s4 then square_off ops s4
          else trade_phase ops s4 tk) = Inr s1"
  using assms by (auto simp: process_tick_def bindE_Inr)

lemma fires_begin_tick:
  assumes "begin_tick ops s tk d = Inr s4"
  shows "(np_val (trade_backlog s4) \<noteq> 0
            \<and> current_pointer s4 - last_trade_time s4 > cooldown_period s4) = fires s tk d"
  using begin_tick_fields[OF assms] by (simp add: fires_def backlog_val_def)

lemma process_tick_common:
  assumes "process_tick ops s tk d = Inr s1"
  shows "cooldown_period s1 = cooldown_period s" "current_day s1 = Some d"
    "o_trade_limit s1 = o_trade_limit s" "day_length s1 = day_length s"
    "snapshot_period s1 = snapshot_period s"
proof -
  from assms obtain s4 where b: "begin_tick ops s tk d = Inr s4"
    and r: "(if np_val (trade_backlog s4) \<noteq> 0
             \<and> current_pointer s4 - last_trade_time s4 > cooldown_period s4
          then execute_trade ops s4 tk
          else if eod_squared_off s4 then Inr s4
          else if current_pointer s4 \<ge> day_length s4 then square_off ops s4
          else trade_phase ops s4 tk) = Inr s1"
    by (rule process_tick_unfold)
  note bf = begin_tick_fields[OF b]
  have "cooldown_period s1 = cooldown_period s4 \<and> current_day s1 = current_day s4 \<and>
        o_trade_limit s1 = o_trade_limit s4 \<and> day_length s1 = day_length s4 \<and>
        snapshot_period s1 = snapshot_period s4"
  proof (cases "np_val (trade_backlog s4) \<noteq> 0
             \<and> current_pointer s4 - last_trade_time s4 > cooldown_period s4")
    case True
    from execute_trade_fields[OF r[unfolded if_P[OF True]]] show ?thesis by simp
  next
    case nf: False
    note r' = r[unfolded if_not_P[OF nf]]
    show ?thesis
    proof (cases "eod_squared_off s4")
      case True
      with r' have "s1 = s4" by (simp only: if_True sum.inject)
      then show ?thesis by (simp only:)
    next
      case False
      show ?thesis
      proof (cases "current_pointer s4 \<ge> day_length s4")
        case True
        with False r' have "square_off ops s4 = Inr s1" by simp
        from square_off_fields[OF this] show ?thesis by simp
      next
        case ge: False
        with False r' have "trade_phase ops s4 tk = Inr s1" by simp
        from trade_phase_fields[OF this] show ?thesis by simp
      qed
    qed
  qed
  then show "cooldown_period s1 = cooldown_period s" "current_day s1 = Some d"
    "o_trade_limit s1 = o_trade_limit s" "day_length s1 = day_length s"
    "snapshot_period s1 = snapshot_period s"
    using bf by simp_all
qed

lemma process_tick_fires:
  assumes "process_tick ops s tk d = Inr s1" and "fires s tk d"
  shows "position s1 = position s"
    "\<exists>r. trade_book s1 = trade_book s @ [r] \<and> tb_Time r = Time tk \<and>
           same_int64 (backlog_val s1) (backlog_val s - signed_qty r) \<and>
           same_int64 (inventory_val s1) (inventory_val s + signed_qty r) \<and>
           (0 < o_trade_limit s \<and> backlog_val s \<noteq> - (2 ^ 63) \<longrightarrow>
              signed_qty r = release_qty s \<and> backlog_val s1 = backlog_val s - release_qty s)"
    "last_trade_time s1 = time_to_seconds (Time tk)"
proof -
  from assms(1) obtain s4 where b: "begin_tick ops s tk d = Inr s4"
    and r: "(if np_val (trade_backlog s4) \<noteq> 0
             \<and> current_pointer s4 - last_trade_time s4 > cooldown_period s4
          then execute_trade ops s4 tk
          else if eod_squared_off s4 then Inr s4
          else if current_pointer s4 \<ge> day_length s4 then square_off ops s4
          else trade_phase ops s4 tk) = Inr s1"
    by (rule process_tick_unfold)
  note bf = begin_tick_fields[OF b]
  from r fires_begin_tick[OF b] assms(2) have e: "execute_trade ops s4 tk = Inr s1" by simp
  have same: "backlog_val s4 = backlog_val s" "inventory_val s4 = inventory_val s"
    "release_qty s4 = release_qty s"
    using bf(1,2,6) by (simp_all add: backlog_val_def inventory_val_def release_qty_def)
  from execute_trade_fields[OF e] bf(3,7)
  show "position s1 = position s" "last_trade_time s1 = time_to_seconds (Time tk)" by simp_all
  from execute_trade_release(1)[OF e]
  show "\<exists>r. trade_book s1 = trade_book s @ [r] \<and> tb_Time r = Time tk \<and>
           same_int64 (backlog_val s1) (backlog_val s - signed_qty r) \<and>
           same_int64 (inventory_val s1) (inventory_val s + signed_qty r) \<and>
           (0 < o_trade_limit s \<and> backlog_val s \<noteq> - (2 ^ 63) \<longrightarrow>
              signed_qty r = release_qty s \<and> backlog_val s1 = backlog_val s - release_qty s)"
    unfolding same bf(4,6) .
qed

lemma process_tick_quiet:
  assumes "process_tick ops s tk d = Inr s1" and "\<not> fires s tk d"
  shows "trade_book s1 = trade_book s" "current_inventory s1 = current_inventory s"
    "np_add (trade_backlog s) (PyInt (exposure s1 - exposure s)) = Inr (trade_backlog s1)"
    "last_trade_time s1 = (if current_day s = Some d then last_trade_time s else - cooldown_period s)"
proof -
  from assms(1) obtain s4 where b: "begin_tick ops s tk d = Inr s4"
    and r: "(if np_val (trade_backlog s4) \<noteq> 0
             \<and> current_pointer s4 - last_trade_time s4 > cooldown_period s4
          then execute_trade ops s4 tk
          else if eod_squared_off s4 then Inr s4
          else if current_pointer s4 \<ge> day_length s4 then square_off ops s4
          else trade_phase ops s4 tk) = Inr s1"
    by (rule process_tick_unfold)
  note bf = begin_tick_fields[OF b]
  from r fires_begin_tick[OF b] assms(2)
  have r': "(if eod_squared_off s4 then Inr s4
             else if current_pointer s4 \<ge> day_length s4 then square_off ops s4
             else trade_phase ops s4 tk) = Inr s1" by simp
  have "trade_book s1 = trade_book s4 \<and> current_inventory s1 = current_inventory s4 \<and>
      np_add (trade_backlog s4) (PyInt (exposure s1 - exposure s4)) = Inr (trade_backlog s1) \<and>
      last_trade_time s1 = last_trade_time s4"
  proof (cases "eod_squared_off s4")
    case True
    with r' have "s1 = s4" by (simp only: if_True sum.inject)
    then show ?thesis by (simp only: exposure_def) (cases "trade_backlog s4"; simp add: np_add_def as_int64_def bindE_def in_int64_def)
  next
    case False
    show ?thesis
    proof (cases "current_pointer s4 \<ge> day_length s4")
      case True
      with False r' have eod: "square_off ops s4 = Inr s1" by simp
      from square_off_fields[OF eod] show ?thesis by (simp add: exposure_def sum_list_replicate)
    next
      case ge: False
      with False r' have trade: "trade_phase ops s4 tk = Inr s1" by simp
      from trade_phase_fields[OF trade] show ?thesis by (simp add: exposure_def)
    qed
  qed
  then show "trade_book s1 = trade_book s" "current_inventory s1 = current_inventory s"
    "np_add (trade_backlog s) (PyInt (exposure s1 - exposure s)) = Inr (trade_backlog s1)"
    "last_trade_time s1 = (if current_day s = Some d then last_trade_time s else - cooldown_period s)"
    using bf(1,2,3,4,9) by (simp_all add: exposure_def)
qed

section \<open>The run: backlog conservation\<close>

lemma run_Nil: "run ops s [] = Inr s"
  by (simp add: run_def)

lemma run_Cons:
  "run ops s ((tk, d) # rest) = bindE (process_tick ops s tk d) (\<lambda>s1. run ops s1 rest)"
  by (simp add: run_def bindE_def)

lemma run_conservation:
  "run ops s ticks = Inr s' \<Longrightarrow>
     (\<exists>fs. trade_book s' = trade_book s @ fs \<and>
           same_int64 (sum_list (map signed_qty fs)) (inventory_val s' - inventory_val s)) \<and>
     same_int64 (backlog_val s' + inventory_val s' - exposure s')
       (backlog_val s + inventory_val s - exposure s)"
proof (induction ticks arbitrary: s)
  case Nil
  then show ?case by (simp add: run_Nil same_int64_def)
next
  case (Cons x ticks)
  obtain tk d where x: "x = (tk, d)" by (cases x)
  from Cons.prems obtain s1 where t: "process_tick ops s tk d = Inr s1"
    and r: "run ops s1 ticks = Inr s'"
    by (auto simp: x run_Cons bindE_Inr)
  from Cons.IH[OF r] obtain fs where fs: "trade_book s' = trade_book s1 @ fs"
    "same_int64 (sum_list (map signed_qty fs)) (inventory_val s' - inventory_val s1)"
    and inv: "same_int64 (backlog_val s' + inventory_val s' - exposure s')
       (backlog_val s1 + inventory_val s1 - exposure s1)" by blast
  show ?case
  proof (cases "fires s tk d")
    case True
    from process_tick_fires[OF t True] obtain r0 where
      b: "trade_book s1 = trade_book s @ [r0]"
      and e: "same_int64 (backlog_val s1) (backlog_val s - signed_qty r0)"
        "same_int64 (inventory_val s1) (inventory_val s + signed_qty r0)"
      and p: "position s1 = position s" by blast
    have "trade_book s' = trade_book s @ (r0 # fs)" using fs(1) b by simp
    moreover have "same_int64 (sum_list (map signed_qty (r0 # fs))) (inventory_val s' - inventory_val s)"
      using fs(2) e(2) by (simp add: same_int64_def wi_hom_syms)
    moreover have "same_int64 (backlog_val s' + inventory_val s' - exposure s')
       (backlog_val s + inventory_val s - exposure s)"
      using inv e p by (simp add: same_int64_def wi_hom_syms exposure_def)
    ultimately show ?thesis by blast
  next
    case False
    note q = process_tick_quiet[OF t False]
    from np_add_Inr[OF q(3)]
    have e: "same_int64 (backlog_val s1) (backlog_val s + (exposure s1 - exposure s))"
      by (simp add: backlog_val_def np_val_def)
    have i: "inventory_val s1 = inventory_val s" using q(2) by (simp add: inventory_val_def)
    have "trade_book s' = trade_book s @ fs" using fs(1) q(1) by simp
    moreover have "same_int64 (sum_list (map signed_qty fs)) (inventory_val s' - inventory_val s)"
      using fs(2) i by simp
    moreover have "same_int64 (backlog_val s' + inventory_val s' - exposure s')
       (backlog_val s + inventory_val s - exposure s)"
      using inv e i by (simp add: same_int64_def wi_hom_syms)
    ultimately show ?thesis by blast
  qed
qed

lemma word_rearrange:
  fixes a :: "64 word"
  assumes "a + i - e = b + j - f"
  shows "a = b + (e - f) - (i - j)"
proof -
  have "a = (a + i - e) - i + e" by simp
  also have "\<dots> = (b + j - f) - i + e" by (simp only: assms)
  also have "\<dots> = b + (e - f) - (i - j)" by simp
  finally show ?thesis .
qed

lemma fills_since_append: "trade_book s' = trade_book s @ fs \<Longrightarrow> fills_since s s' = fs"
  by (simp add: fills_since_def)

text \<open>
  Claim C5 (backlog release and conservation), as amended. On a tick that returns, a
  release fires exactly when \<open>fires\<close> holds: the backlog is not zero and the tick's time
  exceeds the last release time (the baseline \<open>- cooldown_period\<close> on a day's first tick)
  by more than the cooldown. It then logs one fill, sets the last release time to the
  tick's time and leaves the ledger as it is; as \<open>int64\<close> scalars the backlog decreases
  and the inventory increases by the fill; and when \<open>trade_limit\<close> is positive and the
  backlog is not the least \<open>int64\<close>, the fill is \<open>release_qty\<close>, that is
  \<open>min(|backlog|, tradeLimit)\<close> with the sign of the backlog, subtracted from the backlog
  exactly. On any other tick nothing is logged, the inventory is kept, and the backlog
  grows by the change of the ledger's aggregate position (the net trade delta of
  \<open>update_position\<close>, or the end-of-day push \<open>- sum(old positions)\<close>). Over any run that
  returns, the backlog after agrees as an \<open>int64\<close> scalar (modulo \<open>2^64\<close>) with the backlog
  before, plus the accumulated change of the aggregate position, minus the total of the
  fills, and is equal to it whenever both lie in the \<open>int64\<close> range; that total is the
  change of the inventory, modulo \<open>2^64\<close>.
\<close>

theorem backlog_release_conservation:
  "(process_tick ops s tk d = Inr s1 \<longrightarrow>
      (if fires s tk d
       then (\<exists>r. fills_since s s1 = [r] \<and>
               same_int64 (backlog_val s1) (backlog_val s - signed_qty r) \<and>
               same_int64 (inventory_val s1) (inventory_val s + signed_qty r) \<and>
               (0 < o_trade_limit s \<and> backlog_val s \<noteq> - (2 ^ 63) \<longrightarrow>
                  signed_qty r = release_qty s \<and>
                  backlog_val s1 = backlog_val s - release_qty s)) \<and>
            exposure s1 = exposure s \<and>
            last_trade_time s1 = time_to_seconds (Time tk)
       else fills_since s s1 = [] \<and> inventory_val s1 = inventory_val s \<and>
            same_int64 (backlog_val s1) (backlog_val s + (exposure s1 - exposure s)))) \<and>
   (run ops s ticks = Inr s' \<longrightarrow>
      same_int64 (backlog_val s')
        (backlog_val s + (exposure s' - exposure s) - released_since s s') \<and>
      same_int64 (released_since s s') (inventory_val s' - inventory_val s) \<and>
      (in_int64 (backlog_val s') \<and>
       in_int64 (backlog_val s + (exposure s' - exposure s) - released_since s s') \<longrightarrow>
         backlog_val s' = backlog_val s + (exposure s' - exposure s) - released_since s s'))"
proof (intro conjI impI)
  assume t: "process_tick ops s tk d = Inr s1"
  show "if fires s tk d
       then (\<exists>r. fills_since s s1 = [r] \<and>
               same_int64 (backlog_val s1) (backlog_val s - signed_qty r) \<and>
               same_int64 (inventory_val s1) (inventory_val s + signed_qty r) \<and>
               (0 < o_trade_limit s \<and> backlog_val s \<noteq> - (2 ^ 63) \<longrightarrow>
                  signed_qty r = release_qty s \<and>
                  backlog_val s1 = backlog_val s - release_qty s)) \<and>
            exposure s1 = exposure s \<and>
            last_trade_time s1 = time_to_seconds (Time tk)
       else fills_since s s1 = [] \<and> inventory_val s1 = inventory_val s \<and>
            same_int64 (backlog_val s1) (backlog_val s + (exposure s1 - exposure s))"
  proof (cases "fires s tk d")
    case True
    note f = process_tick_fires[OF t True]
    from f(2) obtain r where r: "trade_book s1 = trade_book s @ [r]"
      and rest: "same_int64 (backlog_val s1) (backlog_val s - signed_qty r) \<and>
           same_int64 (inventory_val s1) (inventory_val s + signed_qty r) \<and>
           (0 < o_trade_limit s \<and> backlog_val s \<noteq> - (2 ^ 63) \<longrightarrow>
              signed_qty r = release_qty s \<and> backlog_val s1 = backlog_val s - release_qty s)"
      by blast
    from r have "fills_since s s1 = [r]" by (rule fills_since_append)
    with rest f(1,3) True show ?thesis by (auto simp: exposure_def)
  next
    case False
    note q = process_tick_quiet[OF t False]
    from np_add_Inr[OF q(3)]
    have "same_int64 (backlog_val s1) (backlog_val s + (exposure s1 - exposure s))"
      by (simp add: backlog_val_def np_val_def)
    with q(1,2) False show ?thesis by (simp add: fills_since_def inventory_val_def)
  qed
next
  assume r: "run ops s ticks = Inr s'"
  from run_conservation[OF r] obtain fs where fs: "trade_book s' = trade_book s @ fs"
    "same_int64 (sum_list (map signed_qty fs)) (inventory_val s' - inventory_val s)"
    and inv: "same_int64 (backlog_val s' + inventory_val s' - exposure s')
       (backlog_val s + inventory_val s - exposure s)" by blast
  have rel: "released_since s s' = sum_list (map signed_qty fs)"
    using fs(1) by (simp add: released_since_def fills_since_append)
  show a: "same_int64 (released_since s s') (inventory_val s' - inventory_val s)"
    using fs(2) rel by simp
  show b: "same_int64 (backlog_val s')
        (backlog_val s + (exposure s' - exposure s) - released_since s s')"
    using word_rearrange[OF inv[unfolded same_int64_def wi_hom_syms]] a
    by (simp add: same_int64_def wi_hom_syms)
  assume "in_int64 (backlog_val s') \<and>
       in_int64 (backlog_val s + (exposure s' - exposure s) - released_since s s')"
  with same_int64_exact[OF b]
  show "backlog_val s' = backlog_val s + (exposure s' - exposure s) - released_since s s'"
    by blast
qed

section \<open>The run: cooldown\<close>

lemma min_gap_trans: "- 1 \<le> cd \<Longrightarrow> min_gap cd a b \<Longrightarrow> min_gap cd b c \<Longrightarrow> min_gap cd a c"
  by (simp add: min_gap_def)

lemma run_same_day:
  "run ops s ticks = Inr s' \<Longrightarrow> set (map snd ticks) \<subseteq> {d} \<Longrightarrow>
     cooldown_period s' = cooldown_period s \<and> (ticks \<noteq> [] \<longrightarrow> current_day s' = Some d) \<and>
     (\<exists>fs. trade_book s' = trade_book s @ fs \<and>
        successively (min_gap (cooldown_period s)) (map release_seconds fs) \<and>
        (fs = [] \<longrightarrow> current_day s = Some d \<longrightarrow> last_trade_time s' = last_trade_time s) \<and>
        (fs \<noteq> [] \<longrightarrow> current_day s = Some d \<longrightarrow>
           min_gap (cooldown_period s) (last_trade_time s) (release_seconds (hd fs))) \<and>
        (fs \<noteq> [] \<longrightarrow> last_trade_time s' = release_seconds (last fs)))"
proof (induction ticks arbitrary: s)
  case Nil
  then show ?case by (simp add: run_Nil)
next
  case (Cons x ticks)
  obtain tk d' where x: "x = (tk, d')" by (cases x)
  from Cons.prems(2) have d': "d' = d" and rest: "set (map snd ticks) \<subseteq> {d}" by (simp_all add: x)
  from Cons.prems(1) obtain s1 where t: "process_tick ops s tk d = Inr s1"
    and r: "run ops s1 ticks = Inr s'"
    by (auto simp: x d' run_Cons bindE_Inr)
  note c = process_tick_common[OF t]
  from Cons.IH[OF r rest] obtain fs where cd: "cooldown_period s' = cooldown_period s1"
    and day: "ticks \<noteq> [] \<longrightarrow> current_day s' = Some d"
    and fs: "trade_book s' = trade_book s1 @ fs"
    and succ: "successively (min_gap (cooldown_period s1)) (map release_seconds fs)"
    and e: "fs = [] \<longrightarrow> last_trade_time s' = last_trade_time s1"
    and h: "fs \<noteq> [] \<longrightarrow> min_gap (cooldown_period s1) (last_trade_time s1) (release_seconds (hd fs))"
    and l: "fs \<noteq> [] \<longrightarrow> last_trade_time s' = release_seconds (last fs)"
    using c(2) by blast
  have day': "current_day s' = Some d"
  proof (cases ticks)
    case Nil
    with r have "s' = s1" by (simp only: run_Nil sum.inject)
    then show ?thesis using c(2) by (simp only:)
  next
    case (Cons a list)
    then show ?thesis using day by simp
  qed
  show ?case
  proof (cases "fires s tk d")
    case True
    from process_tick_fires[OF t True] obtain r0 where
      r0: "trade_book s1 = trade_book s @ [r0]" "tb_Time r0 = Time tk"
      and lt: "last_trade_time s1 = time_to_seconds (Time tk)" by blast
    have sec: "release_seconds r0 = last_trade_time s1" using r0(2) lt by (simp add: release_seconds_def)
    have book: "trade_book s' = trade_book s @ (r0 # fs)" using fs r0(1) by simp
    have "successively (min_gap (cooldown_period s)) (map release_seconds (r0 # fs))"
      using succ h sec c(1) by (cases fs) simp_all
    moreover have "current_day s = Some d \<longrightarrow>
        min_gap (cooldown_period s) (last_trade_time s) (release_seconds r0)"
      using True sec lt by (auto simp: fires_def min_gap_def)
    moreover have "last_trade_time s' = release_seconds (last (r0 # fs))"
      using e l sec by (cases fs) simp_all
    ultimately show ?thesis using book cd c(1) day' by auto
  next
    case False
    from process_tick_quiet[OF t False] have q: "trade_book s1 = trade_book s"
      "last_trade_time s1 = (if current_day s = Some d then last_trade_time s else - cooldown_period s)"
      by simp_all
    show ?thesis using fs succ e h l q cd c(1) day' by auto
  qed
qed

text \<open>
  Claim C6 (cooldown separation), as amended. Over a run of ticks that all carry the same
  day id, any two consecutive releases of the run lie at least \<open>cooldown_period + 1\<close>
  apart; when \<open>cooldown_period \<ge> - 1\<close>, so do any two releases of the run.
\<close>

theorem cooldown_within_day:
  assumes "run ops s ticks = Inr s'" and "set (map snd ticks) \<subseteq> {d}"
  shows "successively (min_gap (cooldown_period s)) (map release_seconds (fills_since s s')) \<and>
         (- 1 \<le> cooldown_period s \<longrightarrow>
            sorted_wrt (min_gap (cooldown_period s)) (map release_seconds (fills_since s s')))"
proof -
  from run_same_day[OF assms] obtain fs where fs: "trade_book s' = trade_book s @ fs"
    and succ: "successively (min_gap (cooldown_period s)) (map release_seconds fs)" by blast
  have eq: "fills_since s s' = fs" using fs by (rule fills_since_append)
  have "sorted_wrt (min_gap (cooldown_period s)) (map release_seconds fs)"
    if "- 1 \<le> cooldown_period s"
  proof -
    have "successively (min_gap (cooldown_period s)) (map release_seconds fs) \<longleftrightarrow>
          sorted_wrt (min_gap (cooldown_period s)) (map release_seconds fs)"
      by (rule successively_iff_sorted_wrt_strong) (rule min_gap_trans[OF that])
    with succ show ?thesis by simp
  qed
  with succ eq show ?thesis by simp
qed

section \<open>Example runs\<close>

lemmas engine_defs = backtest_def run_def Orchestrator_init_def ex_cfg_def ex_engine_cfg_def
  ex_strat_cfg_def ex_ticks_def tick_at_def
  process_tick_def begin_tick_def trade_phase_def trade_entries_def square_off_def
  execute_trade_def log_order_def
  portfolio_snapshot_def get_signals_def signal_step_def compute_strategy_pnl_def pnl_step_def
  calc_pnl_def entry_step_def update_def aimd_step_def update_position_def update_slot_def
  normalize_def reset_position_def Position_init_def Asks_init_def dict_get_def getattr_def
  bindE_def getitem_def setitem_def time_to_seconds_def repo_externals_def Strategy_init_def
  strategy_check_long_entry_def strategy_check_short_entry_def strategy_check_long_exit_def
  strategy_check_short_exit_def strategy_update_indicators_def strategy_update_position_def
  strategy_reset_def tick_seconds_def tick_price_def tp_sl_long_def tp_sl_short_def
  exact_mul_def decimal_round_def py_int_def float_ne0_def float_gt0_def
  np_add_def np_sub_def np_mul_def np_abs_def np_sign_def py_min_def as_int64_def in_int64_def
  np_val_def release_times_def release_seconds_def backlog_val_def inventory_val_def

lemmas ex_defs = ex_engine_def ex_engine1_def ex_day_ticks_def engine_defs

lemma isr_obtain: "\<not> isl x \<Longrightarrow> \<exists>y. x = Inr y"
  by (cases x) simp_all

lemma map_sum_InrD: "map_sum id f x = Inr v \<Longrightarrow> \<exists>y. x = Inr y \<and> f y = v"
  by (cases x) auto


lemma ex_engine1_entry:
  "process_tick repo_externals ex_engine (tick_at 2 0 0 100) 1 = Inr ex_engine1"
  "pos (position ex_engine1) = [10]" "backlog_val ex_engine1 = 10"
  "current_day ex_engine1 = Some 1" "last_trade_time ex_engine1 = - 15"
  "cooldown_period ex_engine1 = 15" "o_trade_limit ex_engine1 = 5"
  by (simp_all add: ex_defs Let_def)

lemma ex_fires: "fires ex_engine1 (tick_at 2 0 1 100) 1"
  by (simp add: fires_def ex_engine1_entry tick_at_def time_to_seconds_def)

lemma ex_release_qty: "release_qty ex_engine1 = 5"
  by (simp add: release_qty_def ex_engine1_entry)

lemma ex_release_returns:
  "map_sum id backlog_val (process_tick repo_externals ex_engine1 (tick_at 2 0 1 100) 1) = Inr 5"
  by (simp add: ex_defs Let_def)

lemma ex_day_run:
  "map_sum id release_times (run repo_externals ex_engine ex_day_ticks) = Inr [7201, 7217]"
  "map_sum id backlog_val (run repo_externals ex_engine ex_day_ticks) = Inr 0"
  "map_sum id exposure (run repo_externals ex_engine ex_day_ticks) = Inr 10"
  "map_sum id inventory_val (run repo_externals ex_engine ex_day_ticks) = Inr 10"
  by (simp_all add: ex_defs exposure_def Let_def)

lemma ex_engine_fields: "trade_book ex_engine = []" "cooldown_period ex_engine = 15"
  "backlog_val ex_engine = 0" "exposure ex_engine = 0" "inventory_val ex_engine = 0"
  by (simp_all add: ex_defs exposure_def Let_def)

lemma ex_day_fills:
  "map_sum id (\<lambda>s. map signed_qty (trade_book s)) (run repo_externals ex_engine ex_day_ticks)
     = Inr [5, 5]"
  by (simp add: ex_defs signed_qty_def Let_def)

theorem backlog_release_conservation_witness:
  "\<exists>s1 s'. process_tick repo_externals ex_engine1 (tick_at 2 0 1 100) 1 = Inr s1 \<and>
     run repo_externals ex_engine ex_day_ticks = Inr s' \<and>
     fires ex_engine1 (tick_at 2 0 1 100) 1 \<and>
     0 < o_trade_limit ex_engine1 \<and> backlog_val ex_engine1 \<noteq> - (2 ^ 63) \<and>
     release_qty ex_engine1 = 5 \<and>
     backlog_val ex_engine1 = 10 \<and> backlog_val s1 = 5 \<and>
     map signed_qty (fills_since ex_engine1 s1) = [5] \<and>
     in_int64 (backlog_val s') \<and>
     in_int64 (backlog_val ex_engine + (exposure s' - exposure ex_engine)
        - released_since ex_engine s') \<and>
     backlog_val s' = backlog_val ex_engine + (exposure s' - exposure ex_engine)
        - released_since ex_engine s' \<and>
     released_since ex_engine s' = 10 \<and> exposure s' = 10 \<and> backlog_val s' = 0"
proof -
  from map_sum_InrD[OF ex_release_returns] obtain s1 where
    s1: "process_tick repo_externals ex_engine1 (tick_at 2 0 1 100) 1 = Inr s1"
    and b1: "backlog_val s1 = 5" by blast
  from map_sum_InrD[OF ex_day_run(3)] obtain s' where
    s': "run repo_externals ex_engine ex_day_ticks = Inr s'" and ex: "exposure s' = 10" by blast
  have bl: "backlog_val s' = 0" using ex_day_run(2) s' by simp
  have rel: "released_since ex_engine s' = 10"
    using ex_day_fills s' by (simp add: released_since_def fills_since_def ex_engine_fields)
  have h: "0 < o_trade_limit ex_engine1" "backlog_val ex_engine1 \<noteq> - (2 ^ 63)"
    by (simp_all add: ex_engine1_entry)
  have r1: "in_int64 (backlog_val s')" using bl by (simp add: in_int64_def)
  have r2: "in_int64 (backlog_val ex_engine + (exposure s' - exposure ex_engine)
        - released_since ex_engine s')"
    using ex rel by (simp add: ex_engine_fields in_int64_def)
  from backlog_release_conservation[of repo_externals ex_engine1 "tick_at 2 0 1 100" 1 s1 "[]" ex_engine1]
    s1 ex_fires h
  obtain r where "fills_since ex_engine1 s1 = [r]" "signed_qty r = release_qty ex_engine1"
    by auto
  then have a: "map signed_qty (fills_since ex_engine1 s1) = [5]"
    by (simp add: ex_release_qty)
  from backlog_release_conservation[of repo_externals ex_engine "tick_at 2 0 1 100" 1 s1 ex_day_ticks s']
    s' r1 r2
  have b: "backlog_val s' = backlog_val ex_engine + (exposure s' - exposure ex_engine)
        - released_since ex_engine s'" by blast
  show ?thesis
    using s1 s' ex_fires h ex_release_qty ex_engine1_entry(3) b1 a r1 r2 b rel ex bl
    by (intro exI[of _ s1] exI[of _ s']) simp
qed

text \<open>
  Claim C5 as stated fails in two ways. The released quantity is
  \<open>min(|backlog|, tradeLimit)\<close> with the sign of the backlog only under a positive trade
  limit: with trade limit -3 (accepted by the constructor) a backlog of 10 releases a
  fill of -3 and grows to 13. And the conservation is not exact: after a release the
  backlog is an \<open>int64\<close> scalar and wraps around. With limits and ask \<open>2^62\<close>, slot 1 goes
  short, the short is released and then closed on a price drop; the long entry of slot 0
  at 02:00:00 adds \<open>2^62\<close> to the backlog \<open>2^62\<close>, which reads \<open>- 2^63\<close> afterwards,
  where the backlog before plus the net delta is \<open>2^63\<close>.
\<close>

theorem backlog_release_not_exact:
  "map_sum id (\<lambda>s. (o_trade_limit s, backlog_val s, map signed_qty (trade_book s)))
     (backtest repo_externals [Strategy_init Strategy_A 1 1] ex_negative_limit_cfg
        [(tick_at 2 0 0 100, 1)])
     = Inr (- 3, 10, []) \<and>
   map_sum id (\<lambda>s. (backlog_val s, map signed_qty (trade_book s)))
     (backtest repo_externals [Strategy_init Strategy_A 1 1] ex_negative_limit_cfg
        [(tick_at 2 0 0 100, 1), (tick_at 2 0 1 100, 1)])
     = Inr (13, [- 3]) \<and>
   \<not> (- 3 = sgn (10 :: int) * min \<bar>10\<bar> (- 3) \<and> 0 \<le> sgn (10 :: int) * (- 3 :: int)) \<and>
   map_sum id (\<lambda>s. (o_trade_limit s, backlog_val s, exposure s, length (trade_book s)))
     (Inr ex_large_held :: error + strategy orchestrator)
     = Inr (2 ^ 62, 2 ^ 62, 0, 1) \<and>
   map_sum id (\<lambda>s. (backlog_val s, exposure s, released_since ex_large_held s))
     (process_tick repo_externals ex_large_held (tick_at 2 0 0 90) 1)
     = Inr (- (2 ^ 63), 2 ^ 62, 0) \<and>
   - (2 ^ 63) \<noteq> (2 ^ 62 + (2 ^ 62 - 0) - 0 :: int)"
  by (simp add: ex_negative_limit_cfg_def ex_large_held_def ex_large_cfg_def ex_large_ticks_def
      engine_defs signed_qty_def exposure_def released_since_def fills_since_def Let_def
      upt_rec[of 0] upt_rec[of 1] upt_rec[of 2])

theorem cooldown_within_day_witness:
  "\<exists>s'. run repo_externals ex_engine ex_day_ticks = Inr s' \<and>
     set (map snd ex_day_ticks) \<subseteq> {1} \<and>
     cooldown_period ex_engine = 15 \<and>
     map release_seconds (fills_since ex_engine s') = [7201, 7217] \<and>
     successively (min_gap (cooldown_period ex_engine)) (map release_seconds (fills_since ex_engine s')) \<and>
     sorted_wrt (min_gap (cooldown_period ex_engine)) (map release_seconds (fills_since ex_engine s'))"
proof -
  from map_sum_InrD[OF ex_day_run(1)] obtain s' where
    s': "run repo_externals ex_engine ex_day_ticks = Inr s'"
    and rt: "release_times s' = [7201, 7217]" by blast
  have day: "set (map snd ex_day_ticks) \<subseteq> {1}" by (simp add: ex_day_ticks_def)
  have times: "map release_seconds (fills_since ex_engine s') = [7201, 7217]"
    using rt by (simp add: fills_since_def release_times_def ex_engine_fields)
  from cooldown_within_day[OF s' day] show ?thesis
    using s' day times ex_engine_fields(2) by (intro exI[of _ s']) simp
qed

text \<open>
  Claim C6 as stated, over every run, fails across a day change: the rollover resets the
  last release time to \<open>- cooldown_period\<close>. With cooldown 15, a fill at 02:00:01 of day 1
  is followed by a fill at 02:00:05 of day 2.
\<close>

theorem cooldown_across_days:
  "map_sum id release_times
     (backtest repo_externals [Strategy_init Strategy_A 1 1] ex_cfg ex_ticks) = Inr [7201, 7205] \<and>
   map_sum id cooldown_period
     (backtest repo_externals [Strategy_init Strategy_A 1 1] ex_cfg ex_ticks) = Inr 15 \<and>
   \<not> (7205 - 7201 \<ge> (15::int) + 1)"
  by (simp add: engine_defs Let_def)

section \<open>The end-of-day trigger\<close>







section \<open>The tick protocol: starvation\<close>

lemma foldE_preserves:
  assumes "\<And>x s s'. P s \<Longrightarrow> f x s = Inr s' \<Longrightarrow> P s'" and "P s" and "foldE f xs s = Inr s'"
  shows "P s'"
  using assms(2,3)
proof (induction xs arbitrary: s)
  case Nil
  then show ?case by simp
next
  case (Cons x xs)
  from Cons.prems(2) obtain s1 where "f x s = Inr s1" "foldE f xs s1 = Inr s'"
    by (auto split: sum.splits)
  with Cons.IH[of s1] assms(1)[OF Cons.prems(1)] show ?case by blast
qed

lemma setitem_Inr: "setitem xs i v = Inr ys \<longleftrightarrow> i < length xs \<and> ys = xs[i := v]"
  by (auto simp: setitem_def)

lemma getitem_Inr: "getitem xs i = Inr v \<longleftrightarrow> i < length xs \<and> v = xs ! i"
  by (auto simp: getitem_def)

lemma signal_step_lengths:
  assumes "signal_step ops ps i (sg, sts) = Inr (sg', sts')"
  shows "length sg' = length sg \<and> length sts' = length sts"
  using assms
  by (auto simp: signal_step_def bindE_Inr setitem_Inr split: if_splits prod.splits)

lemma get_signals_lengths:
  assumes "get_signals ops s = Inr (sg, sts)"
  shows "length sg = o_num_strats s" "length sts = length (strategies s)"
proof -
  let ?P = "\<lambda>st. length (fst st) = o_num_strats s \<and> length (snd st) = length (strategies s)"
  have "?P (sg, sts)"
  proof (rule foldE_preserves[where P = ?P and f = "signal_step ops (pos (position s))"])
    show "?P (replicate (o_num_strats s) 0, strategies s)" by simp
    show "foldE (signal_step ops (pos (position s))) [0..<length (strategies s)]
            (replicate (o_num_strats s) 0, strategies s) = Inr (sg, sts)"
      using assms by (simp add: get_signals_def)
  next
    fix x st st'
    assume "?P st" "signal_step ops (pos (position s)) x st = Inr st'"
    then show "?P st'"
      using signal_step_lengths[of ops "pos (position s)" x "fst st" "snd st" "fst st'" "snd st'"]
      by simp
  qed
  then show "length sg = o_num_strats s" "length sts = length (strategies s)" by simp_all
qed

lemma update_position_Inr:
  assumes "update_position P sg asks_abs = Inr (P', trades, aimd)"
  shows "length sg = length asks_abs" "length aimd = length sg"
    "\<exists>ps. update_loop 0 (map2 (*) asks_abs sg) (pos P) = Inr (ps, aimd) \<and>
          pos P' = normalize (inventory_limit P) ps"
proof -
  from assms have len: "length sg = length asks_abs"
    by (auto simp: update_position_def Let_def split: if_splits)
  from assms obtain ps where loop: "update_loop 0 (map2 (*) asks_abs sg) (pos P) = Inr (ps, aimd)"
    and P': "pos P' = normalize (inventory_limit P) ps"
    by (auto simp: update_position_def Let_def split: if_splits sum.splits)
  show "length sg = length asks_abs" by (rule len)
  show "length aimd = length sg" using update_loop_length[OF loop] len by simp
  show "\<exists>ps. update_loop 0 (map2 (*) asks_abs sg) (pos P) = Inr (ps, aimd) \<and>
          pos P' = normalize (inventory_limit P) ps" using loop P' by blast
qed

lemma entry_step_effect:
  assumes "entry_step ops tk prev cur n (sts, eps, ets) = Inr (sts', eps', ets')"
  shows "length eps' = length eps \<and> length ets' = length ets \<and>
         (\<forall>j. j \<noteq> n \<longrightarrow> eps' ! j = eps ! j \<and> ets' ! j = ets ! j) \<and>
         (prev ! n \<noteq> 0 \<and> cur ! n = 0 \<longrightarrow> eps' ! n = 0 \<and> ets' ! n = None)"
  using assms
  by (auto simp: entry_step_def bindE_Inr setitem_Inr getitem_Inr split: if_splits)

lemma entry_loop_effect:
  "foldE (entry_step ops tk prev cur) [0..<n] (sts, eps, ets) = Inr (sts', eps', ets') \<Longrightarrow>
     i < n \<Longrightarrow> prev ! i \<noteq> 0 \<Longrightarrow> cur ! i = 0 \<Longrightarrow> eps' ! i = 0 \<and> ets' ! i = None"
proof (induction n arbitrary: sts' eps' ets')
  case 0
  then show ?case by simp
next
  case (Suc n)
  from Suc.prems(1) obtain sts1 eps1 ets1 where
    pre: "foldE (entry_step ops tk prev cur) [0..<n] (sts, eps, ets) = Inr (sts1, eps1, ets1)"
    and st: "entry_step ops tk prev cur n (sts1, eps1, ets1) = Inr (sts', eps', ets')"
    by (auto simp: foldE_snoc bindE_Inr)
  note eff = entry_step_effect[OF st]
  show ?case
  proof (cases "i = n")
    case True
    with eff Suc.prems(3,4) show ?thesis by simp
  next
    case False
    with Suc.prems(2) have "i < n" by simp
    from Suc.IH[OF pre this Suc.prems(3,4)] eff False show ?thesis by simp
  qed
qed

lemma calc_pnl_fst: "fst (calc_pnl tc fee e x p) = fst (calc_pnl tc 0 e x p)"
  by (simp add: calc_pnl_def Let_def)

lemma pnl_step_effect:
  assumes "pnl_step tc eps price prev final n (pl, fee) = Inr (pl', fee')"
  shows "length pl' = length pl \<and> (\<forall>j. j \<noteq> n \<longrightarrow> pl' ! j = pl ! j) \<and>
         (prev ! n \<noteq> 0 \<and> final ! n * prev ! n \<le> 0 \<longrightarrow>
            pl' ! n = Finite (fst (calc_pnl tc 0 (eps ! n) price (prev ! n))))"
  using assms calc_pnl_fst[of tc fee "eps ! n" price "prev ! n"]
  by (auto simp: pnl_step_def bindE_Inr setitem_Inr getitem_Inr split: if_splits prod.splits)

lemma pnl_loop_effect:
  "foldE (pnl_step tc eps price prev final) [0..<n] (pl, fee) = Inr (pl', fee') \<Longrightarrow>
     length pl' = length pl \<and>
     (\<forall>i<n. prev ! i \<noteq> 0 \<and> final ! i * prev ! i \<le> 0 \<longrightarrow>
        pl' ! i = Finite (fst (calc_pnl tc 0 (eps ! i) price (prev ! i))))"
proof (induction n arbitrary: pl' fee')
  case 0
  then show ?case by simp
next
  case (Suc n)
  from Suc.prems(1) obtain pl1 fee1 where
    pre: "foldE (pnl_step tc eps price prev final) [0..<n] (pl, fee) = Inr (pl1, fee1)"
    and st: "pnl_step tc eps price prev final n (pl1, fee1) = Inr (pl', fee')"
    by (auto simp: foldE_snoc bindE_Inr)
  note eff = pnl_step_effect[OF st]
  note IH = Suc.IH[OF pre]
  show ?case using eff IH by (auto simp: less_Suc_eq)
qed

lemma trade_entries_unfold:
  assumes "trade_entries ops s tk = Inr (s1, prev_pos, aimd)"
  shows "\<exists>sg sts trades sts'.
     get_signals ops s = Inr (sg, sts) \<and>
     update_position (position s) sg (asks (current_asks s)) = Inr (position s1, trades, aimd) \<and>
     foldE (entry_step ops tk (pos (position s)) (pos (position s1))) [0..<length sts]
        (sts, entry_prices s, entry_times s) = Inr (sts', entry_prices s1, entry_times s1)"
  using assms
  by (auto simp: trade_entries_def Let_def bindE_Inr)

lemma update_unflagged:
  assumes "update fm A pl aimd = Inr A'" and "i < length (asks A)" and "aimd ! i \<noteq> 1"
  shows "asks A' ! i = asks A ! i"
proof -
  from assms(1) obtain ys where
    loop: "foldE (aimd_step fm (reward_add A) (penalty_mult A) pl aimd)
             [0..<length (asks A)] (asks A) = Inr ys"
    and A': "A' = A\<lparr>asks := ys\<rparr>"
    by (auto simp: update_def bindE_Inr)
  from aimd_loop[OF loop] assms(2,3) A' show ?thesis by (simp add: aimd_rule_def)
qed

text \<open>
  Claim C10 (a starvation close sets no flag). Take a tick that returns and reaches the
  netting step (no release fires, the day is not squared off, the time is before
  \<open>day_length\<close>), and a slot \<open>i\<close> that held a position, is still nonzero after the loop
  of \<open>update_position\<close> (so neither the square-off rule nor the direction lock
  flattened it) and is clamped to zero by \<open>normalize\<close>. Then the flag returned for slot
  \<open>i\<close> is 0, the slot's entry price and entry time are cleared, and \<open>Asks.update\<close>, fed
  the PnL list and the flags, leaves the ask of slot \<open>i\<close> unchanged. The PnL that
  \<open>_compute_strategy_pnl\<close> stores for the slot is not the realized one: the entry price
  is cleared before it is read, so the value is that of \<open>_calc_pnl\<close> on the entry
  price 0.
\<close>

theorem starvation_close_unflagged:
  assumes tick: "process_tick ops s tk d = Inr s'"
    and start: "begin_tick ops s tk d = Inr s4"
    and quiet: "\<not> fires s tk d"
    and open_day: "\<not> eod_squared_off s4"
    and early: "current_pointer s4 < day_length s4"
    and sig: "get_signals ops s4 = Inr (sg, sts)"
    and loop: "update_loop 0 (map2 (*) (asks (current_asks s4)) sg) (pos (position s4)) = Inr (ps, fs)"
    and slot: "i < o_num_strats s4" "i < length (strategies s4)"
    and held: "pos (position s4) ! i \<noteq> 0"
    and kept: "ps ! i \<noteq> 0"
    and starved: "normalize (inventory_limit (position s4)) ps ! i = 0"
  shows "fs ! i = 0 \<and>
     (\<exists>trades. update_position (position s4) sg (asks (current_asks s4))
                 = Inr (position s', trades, fs)) \<and>
     pos (position s') ! i = 0 \<and>
     entry_prices s' ! i = 0 \<and> entry_times s' ! i = None \<and>
     (\<exists>pnl_list.
        tick_pnl_list ops s4 tk = Inr pnl_list \<and>
        pnl_list ! i = Finite (fst (calc_pnl (tran_cost s4) 0 0 (Price tk) (pos (position s4) ! i))) \<and>
        update (float_mul ops) (current_asks s4) pnl_list fs = Inr (current_asks s')) \<and>
     asks (current_asks s') ! i = asks (current_asks s4) ! i"
proof -
  have tp: "trade_phase ops s4 tk = Inr s'"
  proof -
    from tick start have r: "(if np_val (trade_backlog s4) \<noteq> 0
             \<and> current_pointer s4 - last_trade_time s4 > cooldown_period s4
          then execute_trade ops s4 tk
          else if eod_squared_off s4 then Inr s4
          else if current_pointer s4 \<ge> day_length s4 then square_off ops s4
          else trade_phase ops s4 tk) = Inr s'"
      by (simp add: process_tick_def bindE_def)
    have nf: "\<not> (np_val (trade_backlog s4) \<noteq> 0
             \<and> current_pointer s4 - last_trade_time s4 > cooldown_period s4)"
      using quiet fires_begin_tick[OF start] by simp
    have ge: "\<not> current_pointer s4 \<ge> day_length s4" using early by simp
    from r[unfolded if_not_P[OF nf] if_not_P[OF open_day] if_not_P[OF ge]] show ?thesis .
  qed
  from tp obtain s1 prev_pos aimd pl fee A where
    te: "trade_entries ops s4 tk = Inr (s1, prev_pos, aimd)"
    and pnl: "compute_strategy_pnl s1 (Price tk) prev_pos (pos (position s1)) = Inr (pl, fee)"
    and ask: "update (float_mul ops) (current_asks s1) pl aimd = Inr A"
    and s': "s' = s1\<lparr>total_fee := fee, current_asks := A\<rparr>"
    by (rule trade_phase_unfold)
  note tf = trade_entries_fields[OF te]
  from trade_entries_unfold[OF te] sig obtain trades sts' where
    up: "update_position (position s4) sg (asks (current_asks s4)) = Inr (position s1, trades, aimd)"
    and ent: "foldE (entry_step ops tk (pos (position s4)) (pos (position s1))) [0..<length sts]
        (sts, entry_prices s4, entry_times s4) = Inr (sts', entry_prices s1, entry_times s1)"
    by auto
  have f': "position s' = position s1" "entry_prices s' = entry_prices s1"
    "entry_times s' = entry_times s1" "current_asks s' = A"
    unfolding s' by simp_all
  note sl = get_signals_lengths[OF sig]
  from update_position_Inr[OF up] loop have len: "length sg = length (asks (current_asks s4))"
    and alen: "length aimd = length sg" and aimd: "aimd = fs"
    and newpos: "pos (position s1) = normalize (inventory_limit (position s4)) ps"
    by auto
  have i_fs: "i < length fs" using alen aimd sl(1) slot(1) by simp
  have flag: "fs ! i = 0" using update_loop_flag[OF loop i_fs kept] .
  have zero: "pos (position s1) ! i = 0" using newpos starved by simp
  have i_sts: "i < length sts" using sl(2) slot(2) by simp
  from entry_loop_effect[OF ent i_sts held zero]
  have cleared: "entry_prices s1 ! i = 0" "entry_times s1 ! i = None" by simp_all
  from pnl tf(11,14,15) have fold:
    "foldE (pnl_step (tran_cost s4) (entry_prices s1) (Price tk) (pos (position s4)) (pos (position s1)))
      [0..<o_num_strats s4] (replicate (o_num_strats s4) (Finite 0), total_fee s1) = Inr (pl, fee)"
    by (simp add: compute_strategy_pnl_def)
  from pnl_loop_effect[OF fold] slot(1) held zero cleared(1)
  have pl_i: "pl ! i = Finite (fst (calc_pnl (tran_cost s4) 0 0 (Price tk) (pos (position s4) ! i)))"
    by simp
  have tpl: "tick_pnl_list ops s4 tk = Inr pl"
    using te pnl by (simp add: tick_pnl_list_def bindE_def)
  have ask': "update (float_mul ops) (current_asks s4) pl fs = Inr (current_asks s')"
    using ask tf(12) aimd f'(4) by simp
  have same: "asks (current_asks s') ! i = asks (current_asks s4) ! i"
  proof (rule update_unflagged[OF ask'])
    show "i < length (asks (current_asks s4))" using len sl(1) slot(1) by simp
    show "fs ! i \<noteq> 1" using flag by simp
  qed
  show ?thesis
    using flag up aimd f'(1,2,3) zero cleared tpl pl_i ask' same by auto
qed

lemmas ex_pair_defs = ex_pair_cfg_def ex_pair_held_def ex_pair_begun_def ex_pair_strats_def
  upt_rec[of 0] upt_rec[of 1] upt_rec[of 2]

lemma ex_pair_held_fields:
  "pos (position ex_pair_held) = [0, 10]" "backlog_val ex_pair_held = 0"
  "entry_prices ex_pair_held = [0, 100]" "asks (current_asks ex_pair_held) = [10, 10]"
  "current_day ex_pair_held = Some 1" "inventory_limit (position ex_pair_held) = 10"
  by (simp_all add: ex_pair_defs ex_defs Let_def)

lemma ex_pair_start:
  "begin_tick repo_externals ex_pair_held (tick_at 2 0 0 100) 1 = Inr ex_pair_begun"
  by (simp add: ex_pair_defs ex_defs Let_def)

lemma ex_pair_begun_fields:
  "eod_squared_off ex_pair_begun = False" "current_pointer ex_pair_begun = 7200"
  "day_length ex_pair_begun = 21600" "pos (position ex_pair_begun) = [0, 10]"
  "asks (current_asks ex_pair_begun) = [10, 10]" "inventory_limit (position ex_pair_begun) = 10"
  "o_num_strats ex_pair_begun = 2" "length (strategies ex_pair_begun) = 2"
  "entry_prices ex_pair_begun = [0, 100]" "tran_cost ex_pair_begun = 0"
  by (simp_all add: ex_pair_defs ex_defs Let_def)

lemma ex_pair_signals:
  "get_signals repo_externals ex_pair_begun = Inr ([1, 0], ex_pair_strats)"
  by (simp add: ex_pair_defs ex_defs Let_def)

lemma ex_pair_quiet: "\<not> fires ex_pair_held (tick_at 2 0 0 100) 1"
  by (simp add: fires_def ex_pair_held_fields)

lemma ex_pair_returns:
  "map_sum id (\<lambda>s. pos (position s)) (process_tick repo_externals ex_pair_held (tick_at 2 0 0 100) 1)
     = Inr [10, 0]"
  by (simp add: ex_pair_defs ex_defs Let_def)

lemma ex_pair_pnl:
  "tick_pnl_list repo_externals ex_pair_begun (tick_at 2 0 0 100) = Inr [Finite 0, Finite 1000]"
  by (simp add: tick_pnl_list_def ex_pair_defs ex_defs Let_def)

lemma ex_pair_loop:
  "update_loop 0 (map2 (*) (asks (current_asks ex_pair_begun)) [1, 0]) (pos (position ex_pair_begun))
     = Inr ([10, 10], [0, 0])"
  by (simp add: ex_pair_begun_fields update_slot_def)

theorem starvation_close_unflagged_witness:
  "\<exists>s'. process_tick repo_externals ex_pair_held (tick_at 2 0 0 100) 1 = Inr s' \<and>
     begin_tick repo_externals ex_pair_held (tick_at 2 0 0 100) 1 = Inr ex_pair_begun \<and>
     \<not> fires ex_pair_held (tick_at 2 0 0 100) 1 \<and>
     \<not> eod_squared_off ex_pair_begun \<and>
     current_pointer ex_pair_begun < day_length ex_pair_begun \<and>
     get_signals repo_externals ex_pair_begun = Inr ([1, 0], ex_pair_strats) \<and>
     update_loop 0 (map2 (*) (asks (current_asks ex_pair_begun)) [1, 0]) (pos (position ex_pair_begun))
       = Inr ([10, 10], [0, 0]) \<and>
     1 < o_num_strats ex_pair_begun \<and> 1 < length (strategies ex_pair_begun) \<and>
     pos (position ex_pair_begun) ! 1 = 10 \<and>
     normalize (inventory_limit (position ex_pair_begun)) [10, 10] ! 1 = 0 \<and>
     [0, 0 :: int] ! 1 = 0 \<and>
     pos (position s') ! 1 = 0 \<and>
     entry_prices s' ! 1 = 0 \<and> entry_times s' ! 1 = None \<and>
     asks (current_asks s') ! 1 = asks (current_asks ex_pair_begun) ! 1 \<and>
     tick_pnl_list repo_externals ex_pair_begun (tick_at 2 0 0 100) = Inr [Finite 0, Finite 1000] \<and>
     [Finite 0, Finite 1000] ! 1
       = Finite (fst (calc_pnl (tran_cost ex_pair_begun) 0 0 (Price (tick_at 2 0 0 100))
                        (pos (position ex_pair_begun) ! 1))) \<and>
     entry_prices ex_pair_begun ! 1 = 100 \<and>
     fst (calc_pnl (tran_cost ex_pair_begun) 0 (entry_prices ex_pair_begun ! 1)
            (Price (tick_at 2 0 0 100)) (pos (position ex_pair_begun) ! 1)) = 0"
proof -
  from map_sum_InrD[OF ex_pair_returns] obtain s' where
    s': "process_tick repo_externals ex_pair_held (tick_at 2 0 0 100) 1 = Inr s'" by blast
  have open_day: "\<not> eod_squared_off ex_pair_begun"
    and early: "current_pointer ex_pair_begun < day_length ex_pair_begun"
    and slot: "1 < o_num_strats ex_pair_begun" "1 < length (strategies ex_pair_begun)"
    and held: "pos (position ex_pair_begun) ! 1 \<noteq> 0"
    and held10: "pos (position ex_pair_begun) ! 1 = 10"
    and kept: "[10, 10 :: int] ! 1 \<noteq> 0"
    and starved: "normalize (inventory_limit (position ex_pair_begun)) [10, 10] ! 1 = 0"
    and entry: "entry_prices ex_pair_begun ! 1 = 100"
    and realized: "fst (calc_pnl (tran_cost ex_pair_begun) 0 (entry_prices ex_pair_begun ! 1)
            (Price (tick_at 2 0 0 100)) (pos (position ex_pair_begun) ! 1)) = 0"
    by (simp_all add: ex_pair_begun_fields normalize_def calc_pnl_def tick_at_def)
  from starvation_close_unflagged[OF s' ex_pair_start ex_pair_quiet open_day early
      ex_pair_signals ex_pair_loop slot held kept starved]
  have "[0, 0 :: int] ! 1 = 0" "pos (position s') ! 1 = 0"
    "entry_prices s' ! 1 = 0" "entry_times s' ! 1 = None"
    "asks (current_asks s') ! 1 = asks (current_asks ex_pair_begun) ! 1"
    "\<exists>pnl_list. tick_pnl_list repo_externals ex_pair_begun (tick_at 2 0 0 100) = Inr pnl_list \<and>
        pnl_list ! 1 = Finite (fst (calc_pnl (tran_cost ex_pair_begun) 0 0 (Price (tick_at 2 0 0 100))
                              (pos (position ex_pair_begun) ! 1)))"
    by blast+
  then show ?thesis
    using s' ex_pair_start ex_pair_quiet open_day early ex_pair_signals ex_pair_loop slot held10
      starved ex_pair_pnl entry realized
    by (intro exI[of _ s']) (simp only: simp_thms sum.inject)
qed

section \<open>Construction\<close>

lemma Orchestrator_init_Inr:
  assumes "Orchestrator_init strats cfg = Inr s"
  obtains eng am where "engine cfg = Some eng" "cfg_aimd eng = Some am"
    and "inventory_limit (position s) = dict_get (cfg_inventory_limit eng) 100"
    and "o_trade_limit s = dict_get (cfg_trade_limit eng) 100"
    and "trade_limit (position s) = dict_get (cfg_trade_limit eng) 100"
    and "cooldown_period s = dict_get (cfg_cooldown_period eng) 15"
    and "snapshot_period s = dict_get (cfg_snapshot_period eng) 300"
    and "strategies s = strats" "o_num_strats s = length strats"
    and "pos (position s) = replicate (length strats) 0"
    and "num_strats (position s) = int (length strats)"
    and "asks (current_asks s) = replicate (length strats) (dict_get (cfg_initial_ask am) 10)"
    and "penalty_mult (current_asks s)
           = dict_get (cfg_penalty_mult am) (Finite (5998794703657501 / 9007199254740992))"
    and "entry_prices s = replicate (length strats) 0"
    and "entry_times s = replicate (length strats) None"
    and "trade_backlog s = PyInt 0" "current_inventory s = PyInt 0"
  using assms
  by (auto simp: Orchestrator_init_def Let_def bindE_Inr getattr_def Position_init_def Asks_init_def
      split: option.splits)

lemma Orchestrator_init_limits:
  "isl (Orchestrator_init strats (with_limits cfg il tr_lim cd)) = isl (Orchestrator_init strats cfg)"
  by (cases "engine cfg")
     (auto simp: Orchestrator_init_def with_limits_def Let_def bindE_def getattr_def
       split: option.splits sum.splits)

section \<open>The run returns\<close>

lemma mapE_returns:
  assumes "\<And>x. x \<in> set xs \<Longrightarrow> \<exists>y. f x = Inr y \<and> Q y"
  shows "\<exists>ys. mapE f xs = Inr ys \<and> length ys = length xs \<and> list_all Q ys"
  using assms
proof (induction xs)
  case Nil
  then show ?case by simp
next
  case (Cons x xs)
  from Cons.prems[of x] obtain y where y: "f x = Inr y" "Q y" by auto
  from Cons.IH Cons.prems obtain ys where "mapE f xs = Inr ys" "length ys = length xs" "list_all Q ys"
    by auto
  with y show ?case by (simp add: bindE_def)
qed

lemma foldE_returns:
  assumes "\<And>x s. x \<in> set xs \<Longrightarrow> P s \<Longrightarrow> \<exists>s'. f x s = Inr s' \<and> P s'" and "P s"
  shows "\<exists>s'. foldE f xs s = Inr s' \<and> P s'"
  using assms
proof (induction xs arbitrary: s)
  case Nil
  then show ?case by simp
next
  case (Cons x xs)
  from Cons.prems(1)[of x s] Cons.prems(2) obtain s1 where s1: "f x s = Inr s1" "P s1" by auto
  from Cons.IH[of s1] Cons.prems(1) s1(2) obtain s' where "foldE f xs s1 = Inr s'" "P s'"
    by auto
  with s1 show ?case by simp
qed

lemma update_loop_returns:
  "length rs \<le> length ps \<Longrightarrow> \<exists>ps' fs. update_loop d rs ps = Inr (ps', fs)"
proof (induction d rs ps rule: update_loop.induct)
  case (1 direction ps)
  then show ?case by simp
next
  case (2 direction a rest)
  then show ?case by simp
next
  case (3 direction a rest p ps)
  obtain d1 p1 f1 where st: "update_slot direction a p = (d1, p1, f1)"
    by (cases "update_slot direction a p") auto
  from "3.IH"[OF st[symmetric] refl] "3.prems" obtain qs gs where
    "update_loop d1 rest ps = Inr (qs, gs)" by auto
  with st show ?case by simp
qed

lemma normalize_abs_cap: "sum_list (map abs (normalize il ps)) \<le> \<bar>il\<bar>"
proof (cases "0 \<le> il")
  case True
  from normalize_loop_cap[OF True, of ps] True show ?thesis by (simp add: normalize_def)
next
  case False
  show ?thesis
  proof (cases ps)
    case Nil
    then show ?thesis by (simp add: normalize_def)
  next
    case (Cons p qs)
    have "normalize il ps = (il * (if p > 0 then 1 else - 1)) # replicate (length qs) 0"
      using False by (simp add: normalize_def Cons normalize_loop_full)
    then show ?thesis by (simp add: sum_list_replicate)
  qed
qed

lemma update_position_returns:
  assumes "length sg = length asks_abs" "length asks_abs \<le> length (pos P)"
  shows "\<exists>P' trades aimd. update_position P sg asks_abs = Inr (P', trades, aimd) \<and>
           pos P' = normalize (inventory_limit P) (fst (projr (update_loop 0 (map2 (*) asks_abs sg) (pos P)))) \<and>
           length (pos P') = length (pos P) \<and> num_strats P' = num_strats P \<and>
           inventory_limit P' = inventory_limit P \<and> length aimd = length sg \<and>
           trades = sum_list (pos P') - sum_list (pos P)"
proof -
  have "length (map2 (*) asks_abs sg) \<le> length (pos P)" using assms by simp
  from update_loop_returns[OF this, of 0] obtain ps fs where
    loop: "update_loop 0 (map2 (*) asks_abs sg) (pos P) = Inr (ps, fs)" by blast
  from update_loop_length[OF loop] assms have "length ps = length (pos P)" "length fs = length sg"
    by simp_all
  with loop assms show ?thesis
    by (simp add: update_position_def Let_def normalize_def length_normalize_loop)
qed

lemma list_all_update: "list_all P xs \<Longrightarrow> P x \<Longrightarrow> list_all P (xs[i := x])"
  using set_update_subset_insert[of xs i x] by (auto simp: list_all_iff)

lemma list_all_nth: "list_all P xs \<Longrightarrow> i < length xs \<Longrightarrow> P (xs ! i)"
  by (simp add: list_all_length)

lemma check_returnsD:
  "check_returns ready f \<Longrightarrow> ready st \<Longrightarrow> \<exists>b st'. f st = Inr (b, st') \<and> ready st'"
  by (simp add: check_returns_def)

lemma signal_step_returns:
  assumes c: "check_returns ready (op_check_long_entry ops)"
      "check_returns ready (op_check_short_entry ops)"
      "check_returns ready (op_check_long_exit ops)"
      "check_returns ready (op_check_short_exit ops)"
    and i: "i < n" and ps: "length ps = n"
    and P: "length sg = n" "length sts = n" "list_all ready sts"
  shows "\<exists>sg' sts'. signal_step ops ps i (sg, sts) = Inr (sg', sts') \<and>
           length sg' = n \<and> length sts' = n \<and> list_all ready sts'"
proof -
  have r: "ready (sts ! i)" using P(2,3) i by (simp add: list_all_nth)
  have g: "getitem ps i = Inr (ps ! i)" using i ps by (simp add: getitem_def)
  have st: "\<And>v. setitem sg i v = Inr (sg[i := v])" using i P(1) by (simp add: setitem_def)
  show ?thesis
  proof (cases "ps ! i = 0")
    case True
    from check_returnsD[OF c(1) r] obtain b x where le: "op_check_long_entry ops (sts ! i) = Inr (b, x)"
      and rx: "ready x" by blast
    show ?thesis
    proof (cases b)
      case True
      with \<open>ps ! i = 0\<close> le g st rx P show ?thesis
        by (simp add: signal_step_def bindE_def list_all_update)
    next
      case False
      from check_returnsD[OF c(2) rx] obtain b' x' where
        se: "op_check_short_entry ops x = Inr (b', x')" and rx': "ready x'" by blast
      with \<open>ps ! i = 0\<close> False le g st P show ?thesis
        by (simp add: signal_step_def bindE_def list_all_update)
    qed
  next
    case nz: False
    show ?thesis
    proof (cases "ps ! i > 0")
      case True
      from check_returnsD[OF c(3) r] obtain b x where "op_check_long_exit ops (sts ! i) = Inr (b, x)"
        and "ready x" by blast
      with nz True g st P show ?thesis
        by (simp add: signal_step_def bindE_def list_all_update)
    next
      case False
      from check_returnsD[OF c(4) r] obtain b x where "op_check_short_exit ops (sts ! i) = Inr (b, x)"
        and "ready x" by blast
      with nz False g st P show ?thesis
        by (simp add: signal_step_def bindE_def list_all_update)
    qed
  qed
qed

lemma get_signals_returns:
  fixes ops :: "'s externals"
  assumes c: "check_returns ready (op_check_long_entry ops)"
      "check_returns ready (op_check_short_entry ops)"
      "check_returns ready (op_check_long_exit ops)"
      "check_returns ready (op_check_short_exit ops)"
    and wf: "well_formed s" and r: "list_all ready (strategies s)"
  shows "\<exists>sg sts. get_signals ops s = Inr (sg, sts) \<and> length sg = o_num_strats s \<and>
           length sts = o_num_strats s \<and> list_all ready sts"
proof -
  let ?n = "o_num_strats s"
  let ?P = "\<lambda>st. length (fst st) = ?n \<and> length (snd st) = ?n \<and> list_all ready (snd st)"
  have "\<exists>st'. foldE (signal_step ops (pos (position s))) [0..<length (strategies s)]
          (replicate ?n 0, strategies s) = Inr st' \<and> ?P st'"
  proof (rule foldE_returns[where P = ?P])
    show "?P (replicate ?n 0, strategies s)" using wf r by (simp add: well_formed_def)
  next
    fix x and st :: "int list \<times> 's list"
    assume x: "x \<in> set [0..<length (strategies s)]" and p: "?P st"
    have "x < ?n" using x wf by (simp add: well_formed_def)
    moreover have "length (pos (position s)) = ?n" using wf by (simp add: well_formed_def)
    ultimately have "\<exists>sg' sts'. signal_step ops (pos (position s)) x (fst st, snd st) = Inr (sg', sts') \<and>
           length sg' = ?n \<and> length sts' = ?n \<and> list_all ready sts'"
      using p by (intro signal_step_returns[OF c]) simp_all
    then show "\<exists>s'. signal_step ops (pos (position s)) x st = Inr s' \<and> ?P s'" by auto
  qed
  then show ?thesis by (auto simp: get_signals_def)
qed

lemma entry_step_returns:
  assumes u: "\<And>p e st. ready st \<Longrightarrow> \<exists>st'. op_update_position ops p e st = Inr st' \<and> ready st'"
    and i: "i < n" and l: "length prev = n" "length cur = n"
    and P: "length sts = n" "list_all ready sts" "length eps = n" "length ets = n"
  shows "\<exists>sts' eps' ets'. entry_step ops tk prev cur i (sts, eps, ets) = Inr (sts', eps', ets') \<and>
           length sts' = n \<and> list_all ready sts' \<and> length eps' = n \<and> length ets' = n"
proof -
  have r: "ready (sts ! i)" using P(1,2) i by (simp add: list_all_nth)
  have g: "getitem prev i = Inr (prev ! i)" "getitem cur i = Inr (cur ! i)"
    using i l by (simp_all add: getitem_def)
  have st: "\<And>v. setitem eps i v = Inr (eps[i := v])" "\<And>v. setitem ets i v = Inr (ets[i := v])"
    using i P(3,4) by (simp_all add: setitem_def)
  from u[OF r, of "cur ! i" "Price tk"] obtain x where
    x: "op_update_position ops (cur ! i) (Price tk) (sts ! i) = Inr x" "ready x" by blast
  from u[OF r, of 0 0] obtain y where
    y: "op_update_position ops 0 0 (sts ! i) = Inr y" "ready y" by blast
  show ?thesis
    using g st x y P by (simp add: entry_step_def bindE_def list_all_update)
qed

lemma entry_loop_returns:
  fixes ops :: "'s externals"
  assumes u: "\<And>p e st. ready st \<Longrightarrow> \<exists>st'. op_update_position ops p e st = Inr st' \<and> ready st'"
    and l: "length prev = n" "length cur = n"
    and P: "length sts = n" "list_all ready sts" "length eps = n" "length ets = n"
  shows "\<exists>sts' eps' ets'. foldE (entry_step ops tk prev cur) [0..<length sts] (sts, eps, ets)
             = Inr (sts', eps', ets') \<and>
           length sts' = n \<and> length eps' = n \<and> length ets' = n"
proof -
  let ?P = "\<lambda>st. length (fst st) = n \<and> list_all ready (fst st) \<and> length (fst (snd st)) = n \<and>
                  length (snd (snd st)) = n"
  have "\<exists>st'. foldE (entry_step ops tk prev cur) [0..<length sts] (sts, eps, ets) = Inr st' \<and> ?P st'"
  proof (rule foldE_returns[where P = ?P])
    show "?P (sts, eps, ets)" using P by simp
  next
    fix x and st :: "'s list \<times> real list \<times> pytime option list"
    assume x: "x \<in> set [0..<length sts]" and p: "?P st"
    have "x < n" using x P(1) by simp
    then have "\<exists>sts' eps' ets'. entry_step ops tk prev cur x (fst st, fst (snd st), snd (snd st))
           = Inr (sts', eps', ets') \<and>
           length sts' = n \<and> list_all ready sts' \<and> length eps' = n \<and> length ets' = n"
      using p l by (intro entry_step_returns[OF u]) simp_all
    then show "\<exists>s'. entry_step ops tk prev cur x st = Inr s' \<and> ?P s'" by auto
  qed
  then show ?thesis by auto
qed

lemma pnl_loop_returns:
  assumes "length prev = n" "length final = n" "length eps = n"
  shows "\<exists>pl fee'. foldE (pnl_step tc eps price prev final) [0..<n] (replicate n (Finite 0), fee)
           = Inr (pl, fee') \<and> length pl = n"
proof -
  let ?P = "\<lambda>st :: pyfloat list \<times> real. length (fst st) = n"
  have "\<exists>st'. foldE (pnl_step tc eps price prev final) [0..<n] (replicate n (Finite 0), fee) = Inr st' \<and> ?P st'"
  proof (rule foldE_returns[where P = ?P])
    show "?P (replicate n (Finite 0), fee)" by simp
  next
    fix x and st :: "pyfloat list \<times> real"
    assume x: "x \<in> set [0..<n]" and p: "?P st"
    obtain pl f where st: "st = (pl, f)" by (cases st)
    from x p assms st show "\<exists>s'. pnl_step tc eps price prev final x st = Inr s' \<and> ?P s'"
      by (auto simp: pnl_step_def getitem_def setitem_def bindE_def split: prod.splits)
  qed
  then show ?thesis by auto
qed

lemma aimd_step_returns:
  assumes "\<And>a. \<exists>x. fm a pm = Inr (Finite x)" "i < length pnl" "i < length aimd"
  shows "\<exists>ys. aimd_step fm ra pm pnl aimd i xs = Inr ys \<and> length ys = length xs"
proof -
  from assms(1)[of "xs ! i"] obtain x where "fm (xs ! i) pm = Inr (Finite x)" by blast
  with assms(2,3) show ?thesis
    by (simp add: aimd_step_def getitem_def bindE_def py_int_def)
qed

lemma update_returns:
  assumes "\<And>a. \<exists>x. fm a (penalty_mult A) = Inr (Finite x)"
    and "length (asks A) \<le> length pnl" "length (asks A) \<le> length aimd"
  shows "\<exists>A'. update fm A pnl aimd = Inr A' \<and> length (asks A') = length (asks A) \<and>
           penalty_mult A' = penalty_mult A"
proof -
  let ?P = "\<lambda>xs :: int list. length xs = length (asks A)"
  have "\<exists>ys. foldE (aimd_step fm (reward_add A) (penalty_mult A) pnl aimd)
          [0..<length (asks A)] (asks A) = Inr ys \<and> ?P ys"
  proof (rule foldE_returns[where P = ?P])
    show "?P (asks A)" by simp
  next
    fix x and xs :: "int list"
    assume x: "x \<in> set [0..<length (asks A)]" and p: "?P xs"
    have "x < length pnl" "x < length aimd" using x assms(2,3) by simp_all
    from aimd_step_returns[where fm = fm and pm = "penalty_mult A" and ra = "reward_add A"
        and xs = xs, OF assms(1) this] p
    show "\<exists>s'. aimd_step fm (reward_add A) (penalty_mult A) pnl aimd x xs = Inr s' \<and> ?P s'"
      by auto
  qed
  then show ?thesis by (auto simp: update_def bindE_def)
qed

lemma np_returns:
  assumes "in_int64 (np_val a)" "in_int64 (np_val b)"
  shows "\<exists>c. np_add a b = Inr c" "\<exists>c. np_sub a b = Inr c" "\<exists>c. np_mul a b = Inr c"
  using assms
  by (cases a; cases b; simp add: np_add_def np_sub_def np_mul_def as_int64_def bindE_def np_val_def)+

lemma np_sign_returns: "in_int64 (np_val a) \<Longrightarrow> \<exists>w. np_sign a = Inr (Int64 w)"
  by (cases a) (simp_all add: np_sign_def np_val_def)

lemma np_abs_in_int64:
  "\<bar>np_val a\<bar> < 2 ^ 63 \<or> (\<exists>w. a = Int64 w) \<Longrightarrow> in_int64 (np_val (np_abs a))"
  by (cases a) (auto simp: np_abs_def np_val_def sint_in_int64 abs_small_in_int64)

lemma py_min_in_int64:
  "in_int64 (np_val a) \<Longrightarrow> in_int64 (np_val b) \<Longrightarrow> in_int64 (np_val (py_min a b))"
  by (simp add: py_min_def)

lemma sum_list_abs_le: "\<bar>sum_list xs\<bar> \<le> sum_list (map abs (xs :: int list))"
  by (induction xs) auto

lemma scalars_in_range:
  assumes "scalars_ok s" "within_bounds s"
  shows "\<bar>backlog_val s\<bar> < 2 ^ 63 \<or> (\<exists>w. trade_backlog s = Int64 w)"
    "in_int64 (backlog_val s)" "in_int64 (inventory_val s)"
    "\<bar>sum_list (pos (position s))\<bar> < 2 ^ 62"
proof -
  from assms(2) sum_list_abs_le[of "pos (position s)"]
  show e: "\<bar>sum_list (pos (position s))\<bar> < 2 ^ 62" by (simp add: within_bounds_def)
  from assms(1) consider
      (py) "trade_backlog s = PyInt (sum_list (pos (position s)))" "current_inventory s = PyInt 0"
    | (np) v w where "trade_backlog s = Int64 v" "current_inventory s = Int64 w"
    by (auto simp: scalars_ok_def)
  then have "(\<bar>backlog_val s\<bar> < 2 ^ 63 \<or> (\<exists>w. trade_backlog s = Int64 w)) \<and>
        in_int64 (backlog_val s) \<and> in_int64 (inventory_val s)"
  proof cases
    case py
    have "\<bar>backlog_val s\<bar> < 2 ^ 63" using e py(1) by (simp add: backlog_val_def np_val_def)
    moreover from this have "in_int64 (backlog_val s)" by (rule abs_small_in_int64)
    moreover have "in_int64 (inventory_val s)"
      using py(2) by (simp add: inventory_val_def np_val_def in_int64_def)
    ultimately show ?thesis by blast
  next
    case np
    then show ?thesis by (simp add: backlog_val_def inventory_val_def np_val_def sint_in_int64)
  qed
  then show "\<bar>backlog_val s\<bar> < 2 ^ 63 \<or> (\<exists>w. trade_backlog s = Int64 w)"
    "in_int64 (backlog_val s)" "in_int64 (inventory_val s)" by blast+
qed

lemma begin_tick_returns:
  assumes "snapshot_period s \<noteq> 0"
    and ui: "\<And>st. \<exists>st'. op_update_indicators ops tk st = Inr st' \<and> ready st'"
  shows "\<exists>s4. begin_tick ops s tk d = Inr s4 \<and>
           (\<not> eod_squared_off s4 \<longrightarrow> list_all ready (strategies s4))"
proof -
  from mapE_returns[of "strategies s" "op_update_indicators ops tk" ready] ui
  obtain sts where sts: "mapE (op_update_indicators ops tk) (strategies s) = Inr sts"
    "list_all ready sts" by blast
  show ?thesis
    using assms(1) sts
    by (cases "current_day s \<noteq> Some d"; cases "eod_squared_off s";
        simp add: begin_tick_def Let_def bindE_def portfolio_snapshot_def)
qed

lemma begin_tick_invariant:
  assumes "begin_tick ops s tk d = Inr s4" "run_invariant s"
  shows "run_invariant s4"
  using begin_tick_fields[OF assms(1)] assms(2)
  by (simp add: run_invariant_def well_formed_def within_bounds_def scalars_ok_def)

lemma execute_trade_frame:
  assumes "execute_trade ops s tk = Inr s1"
  shows "strategies s1 = strategies s" "o_num_strats s1 = o_num_strats s"
    "current_asks s1 = current_asks s" "entry_prices s1 = entry_prices s"
    "entry_times s1 = entry_times s"
  using assms
  by (auto simp: execute_trade_def bindE_Inr Let_def log_order_def)

lemma execute_trade_returns:
  assumes "run_invariant s"
  shows "\<exists>s1. execute_trade ops s tk = Inr s1 \<and> run_invariant s1"
proof -
  from assms have ok: "scalars_ok s" "within_bounds s" by (simp_all add: run_invariant_def)
  note r = scalars_in_range[OF ok]
  have rb: "in_int64 (np_val (trade_backlog s))" "in_int64 (np_val (current_inventory s))"
    using r(2,3) by (simp_all add: backlog_val_def inventory_val_def)
  from np_sign_returns[OF rb(1)] obtain w where sg: "np_sign (trade_backlog s) = Inr (Int64 w)"
    by blast
  have "in_int64 (np_val (np_abs (trade_backlog s)))"
    using r(1) by (intro np_abs_in_int64) (simp add: backlog_val_def)
  moreover have "in_int64 (np_val (PyInt (o_trade_limit s)))"
    using ok(2) by (simp add: within_bounds_def np_val_def)
  ultimately have "in_int64 (np_val (py_min (np_abs (trade_backlog s)) (PyInt (o_trade_limit s))))"
    by (rule py_min_in_int64)
  from np_returns(3)[OF this np_val_Int64[of w]] obtain q where
    q: "np_mul (py_min (np_abs (trade_backlog s)) (PyInt (o_trade_limit s))) (Int64 w) = Inr q"
    by blast
  from np_op_Int64(3)[OF q] obtain v where v: "q = Int64 v" by blast
  from np_returns(2)[OF rb(1) np_val_Int64[of v]] obtain b1 where
    b1: "np_sub (trade_backlog s) q = Inr b1" unfolding v by blast
  from np_returns(1)[OF rb(2) np_val_Int64[of v]] obtain i1 where
    i1: "np_add (current_inventory s) q = Inr i1" unfolding v by blast
  from sg q b1 i1 obtain s1 where s1: "execute_trade ops s tk = Inr s1"
    by (simp add: execute_trade_def bindE_def Let_def)
  note f = execute_trade_fields[OF s1] execute_trade_frame[OF s1] execute_trade_release(2,3)[OF s1]
  have "run_invariant s1"
    using assms f by (simp add: run_invariant_def well_formed_def within_bounds_def scalars_ok_def)
  with s1 show ?thesis by blast
qed

lemma square_off_returns:
  assumes inv: "run_invariant s" and r: "list_all ready (strategies s)"
    and reset: "\<And>st. ready st \<Longrightarrow> \<exists>st'. op_reset ops st = Inr st'"
  shows "\<exists>s1. square_off ops s = Inr s1 \<and> run_invariant s1"
proof -
  from inv have ok: "scalars_ok s" "within_bounds s" "well_formed s"
    by (simp_all add: run_invariant_def)
  note rg = scalars_in_range[OF ok(1,2)]
  let ?e = "sum_list (pos (position s))"
  have "\<bar>- ?e\<bar> < 2 ^ 63" using rg(4) by simp
  then have "in_int64 (np_val (PyInt (- ?e)))" unfolding np_val_def npint.case
    by (rule abs_small_in_int64)
  from np_returns(1)[OF _ this, of "trade_backlog s"] rg(2) obtain b1 where
    b1: "np_add (trade_backlog s) (PyInt (- ?e)) = Inr b1" by (auto simp: backlog_val_def)
  have sc: "b1 = PyInt 0 \<and> current_inventory s = PyInt 0 \<or>
        (\<exists>w. b1 = Int64 w) \<and> (\<exists>w. current_inventory s = Int64 w)"
  proof -
    from ok(1) consider
        (py) "trade_backlog s = PyInt ?e" "current_inventory s = PyInt 0"
      | (np) v w where "trade_backlog s = Int64 v" "current_inventory s = Int64 w"
      by (auto simp: scalars_ok_def)
    then show ?thesis
    proof cases
      case py
      with b1 show ?thesis by (simp add: np_add_def)
    next
      case np
      from np_op_Int64(4)[OF b1[unfolded np(1)]] np(2) show ?thesis by simp
    qed
  qed
  from mapE_returns[of "strategies s" "op_reset ops" "\<lambda>_. True"] reset r
  obtain sts where sts: "mapE (op_reset ops) (strategies s) = Inr sts" "length sts = length (strategies s)"
    by (auto simp: list_all_iff)
  from b1 sts(1) obtain s1 where s1: "square_off ops s = Inr s1" "strategies s1 = sts"
    "o_num_strats s1 = o_num_strats s" "current_asks s1 = current_asks s"
    "entry_prices s1 = entry_prices s" "entry_times s1 = entry_times s"
    "position s1 = reset_position (position s)" "trade_backlog s1 = b1"
    by (simp add: square_off_def Let_def bindE_def)
  note f = square_off_fields[OF s1(1)]
  have "well_formed s1"
    using ok(3) s1 sts(2) by (simp add: well_formed_def reset_position_def)
  moreover have "within_bounds s1"
    using ok(2) s1(7) f(9,11) by (simp add: within_bounds_def reset_position_def sum_list_replicate)
  moreover have "scalars_ok s1"
    using sc s1(7,8) f(2) by (simp add: scalars_ok_def reset_position_def sum_list_replicate)
  ultimately show ?thesis using s1(1) by (auto simp: run_invariant_def)
qed

lemma trade_phase_returns:
  fixes ops :: "'s externals"
  assumes inv: "run_invariant s" and r: "list_all ready (strategies s)"
    and c: "collaborators_return ops ready (penalty_mult (current_asks s))"
  shows "\<exists>s1. trade_phase ops s tk = Inr s1 \<and> run_invariant s1 \<and>
           penalty_mult (current_asks s1) = penalty_mult (current_asks s)"
proof -
  from inv have ok: "scalars_ok s" "within_bounds s" "well_formed s"
    by (simp_all add: run_invariant_def)
  let ?n = "o_num_strats s"
  from ok(3) have wf: "length (strategies s) = ?n" "num_strats (position s) = int ?n"
    "length (pos (position s)) = ?n" "length (asks (current_asks s)) = ?n"
    "length (entry_prices s) = ?n" "length (entry_times s) = ?n"
    by (simp_all add: well_formed_def)
  from c have chk: "check_returns ready (op_check_long_entry ops)"
      "check_returns ready (op_check_short_entry ops)"
      "check_returns ready (op_check_long_exit ops)"
      "check_returns ready (op_check_short_exit ops)"
    and upd: "\<And>p e st. ready st \<Longrightarrow> \<exists>st'. op_update_position ops p e st = Inr st' \<and> ready st'"
    and fm: "\<And>a. \<exists>x. float_mul ops a (penalty_mult (current_asks s)) = Inr (Finite x)"
    by (simp_all add: collaborators_return_def)
  from get_signals_returns[OF chk ok(3) r] obtain sg sts where
    sig: "get_signals ops s = Inr (sg, sts)" and lsg: "length sg = ?n" and lsts: "length sts = ?n"
    and rsts: "list_all ready sts" by blast
  from update_position_returns[of sg "asks (current_asks s)" "position s"] lsg wf(3,4)
  obtain P trades aimd where
    up: "update_position (position s) sg (asks (current_asks s)) = Inr (P, trades, aimd)"
    and P: "length (pos P) = ?n" "num_strats P = num_strats (position s)"
      "inventory_limit P = inventory_limit (position s)" "length aimd = ?n"
      "trades = sum_list (pos P) - sum_list (pos (position s))"
    and Pn: "pos P = normalize (inventory_limit (position s))
               (fst (projr (update_loop 0 (map2 (*) (asks (current_asks s)) sg) (pos (position s)))))"
    by auto
  have cap: "sum_list (map abs (pos P)) \<le> \<bar>inventory_limit (position s)\<bar>"
    unfolding Pn by (rule normalize_abs_cap)
  note rg = scalars_in_range[OF ok(1,2)]
  have lim: "\<bar>inventory_limit (position s)\<bar> < 2 ^ 62" using ok(2) by (simp add: within_bounds_def)
  have "\<bar>sum_list (pos P)\<bar> < 2 ^ 62" using cap lim sum_list_abs_le[of "pos P"] by linarith
  with rg(4) P(5) have "\<bar>trades\<bar> < 2 ^ 63" by simp
  then have "in_int64 (np_val (PyInt trades))" unfolding np_val_def npint.case
    by (rule abs_small_in_int64)
  from np_returns(1)[OF _ this, of "trade_backlog s"] rg(2) obtain b1 where
    b1: "np_add (trade_backlog s) (PyInt trades) = Inr b1" by (auto simp: backlog_val_def)
  have sc: "b1 = PyInt (sum_list (pos P)) \<and> current_inventory s = PyInt 0 \<or>
        (\<exists>w. b1 = Int64 w) \<and> (\<exists>w. current_inventory s = Int64 w)"
  proof -
    from ok(1) consider
        (py) "trade_backlog s = PyInt (sum_list (pos (position s)))" "current_inventory s = PyInt 0"
      | (np) v w where "trade_backlog s = Int64 v" "current_inventory s = Int64 w"
      by (auto simp: scalars_ok_def)
    then show ?thesis
    proof cases
      case py
      with b1 P(5) show ?thesis by (simp add: np_add_def)
    next
      case np
      from np_op_Int64(4)[OF b1[unfolded np(1)]] np(2) show ?thesis by simp
    qed
  qed
  from entry_loop_returns[of ready ops "pos (position s)" ?n "pos P" sts "entry_prices s"
      "entry_times s" tk] upd wf(3,5,6) P(1) lsts rsts
  obtain sts' eps ets where
    ent: "foldE (entry_step ops tk (pos (position s)) (pos P)) [0..<length sts]
            (sts, entry_prices s, entry_times s) = Inr (sts', eps, ets)"
    and le: "length sts' = ?n" "length eps = ?n" "length ets = ?n"
    by blast
  define s1 where "s1 = s\<lparr>strategies := sts', position := P, trade_backlog := b1,
                     entry_prices := eps, entry_times := ets\<rparr>"
  have te: "trade_entries ops s tk = Inr (s1, pos (position s), aimd)"
    using sig up b1 ent by (simp add: trade_entries_def Let_def bindE_def s1_def)
  from pnl_loop_returns[of "pos (position s)" ?n "pos P" eps "tran_cost s" "Price tk" "total_fee s"]
    wf(3) P(1) le(2)
  obtain pl fee where
    pnl: "compute_strategy_pnl s1 (Price tk) (pos (position s)) (pos (position s1)) = Inr (pl, fee)"
    and lpl: "length pl = ?n"
    by (auto simp: compute_strategy_pnl_def s1_def)
  from update_returns[of "float_mul ops" "current_asks s" pl aimd] fm wf(4) lpl P(4)
  obtain A where A: "update (float_mul ops) (current_asks s1) pl aimd = Inr A"
    and lA: "length (asks A) = ?n" "penalty_mult A = penalty_mult (current_asks s)"
    by (auto simp: s1_def)
  define s2 where "s2 = s1\<lparr>total_fee := fee, current_asks := A\<rparr>"
  have tp: "trade_phase ops s tk = Inr s2"
    using te pnl A by (simp add: trade_phase_def bindE_def s2_def)
  have "well_formed s2"
    using wf le lA(1) P(1,2) by (simp add: well_formed_def s2_def s1_def)
  moreover have "within_bounds s2"
    using ok(2) cap P(3) by (simp add: within_bounds_def s2_def s1_def)
  moreover have "scalars_ok s2"
    using sc by (simp add: scalars_ok_def s2_def s1_def)
  moreover have "penalty_mult (current_asks s2) = penalty_mult (current_asks s)"
    using lA(2) by (simp add: s2_def)
  ultimately show ?thesis using tp by (auto simp: run_invariant_def)
qed

lemma process_tick_returns:
  fixes ops :: "'s externals"
  assumes inv: "run_invariant s"
    and c: "collaborators_return ops ready (penalty_mult (current_asks s))"
  shows "\<exists>s1. process_tick ops s tk d = Inr s1 \<and> run_invariant s1 \<and>
           penalty_mult (current_asks s1) = penalty_mult (current_asks s)"
proof -
  from inv have sp: "snapshot_period s \<noteq> 0" by (simp add: run_invariant_def within_bounds_def)
  from c have ui: "\<And>st. \<exists>st'. op_update_indicators ops tk st = Inr st' \<and> ready st'"
    and reset: "\<And>st. ready st \<Longrightarrow> \<exists>st'. op_reset ops st = Inr st'"
    by (simp_all add: collaborators_return_def)
  from begin_tick_returns[OF sp ui, of d] obtain s4 where
    b: "begin_tick ops s tk d = Inr s4"
    and rd: "\<not> eod_squared_off s4 \<longrightarrow> list_all ready (strategies s4)" by blast
  note i4 = begin_tick_invariant[OF b inv]
  have pm: "penalty_mult (current_asks s4) = penalty_mult (current_asks s)"
    using begin_tick_fields(12)[OF b] by simp
  have "\<exists>s1. (if np_val (trade_backlog s4) \<noteq> 0
             \<and> current_pointer s4 - last_trade_time s4 > cooldown_period s4
          then execute_trade ops s4 tk
          else if eod_squared_off s4 then Inr s4
          else if current_pointer s4 \<ge> day_length s4 then square_off ops s4
          else trade_phase ops s4 tk) = Inr s1 \<and> run_invariant s1 \<and>
           penalty_mult (current_asks s1) = penalty_mult (current_asks s4)"
  proof (cases "np_val (trade_backlog s4) \<noteq> 0
             \<and> current_pointer s4 - last_trade_time s4 > cooldown_period s4")
    case True
    from execute_trade_returns[OF i4, of ops tk] obtain s1 where
      e: "execute_trade ops s4 tk = Inr s1" "run_invariant s1" by blast
    from execute_trade_frame(3)[OF e(1)] e show ?thesis
      unfolding if_P[OF True] by simp
  next
    case nf: False
    show ?thesis
    proof (cases "eod_squared_off s4")
      case True
      with i4 show ?thesis unfolding if_not_P[OF nf] by simp
    next
      case ne: False
      with rd have r: "list_all ready (strategies s4)" by simp
      show ?thesis
      proof (cases "current_pointer s4 \<ge> day_length s4")
        case True
        from square_off_returns[OF i4 r reset] obtain s1 where
          q: "square_off ops s4 = Inr s1" "run_invariant s1" by blast
        have "current_asks s1 = current_asks s4"
          using q(1) by (auto simp: square_off_def Let_def bindE_Inr)
        with q show ?thesis
          unfolding if_not_P[OF nf] if_not_P[OF ne] if_P[OF True] by simp
      next
        case ge: False
        from trade_phase_returns[OF i4 r c[folded pm], of tk]
        show ?thesis unfolding if_not_P[OF nf] if_not_P[OF ne] if_not_P[OF ge] .
      qed
    qed
  qed
  with b pm show ?thesis by (simp add: process_tick_def bindE_def)
qed

lemma run_returns:
  fixes ops :: "'s externals"
  assumes "run_invariant s"
    and "collaborators_return ops ready (penalty_mult (current_asks s))"
  shows "\<exists>s'. run ops s ticks = Inr s' \<and> run_invariant s'"
  using assms
proof (induction ticks arbitrary: s)
  case Nil
  then show ?case by (simp add: run_Nil)
next
  case (Cons x ticks)
  obtain tk d where x: "x = (tk, d)" by (cases x)
  from process_tick_returns[OF Cons.prems, of tk d] obtain s1 where
    t: "process_tick ops s tk d = Inr s1" and i: "run_invariant s1"
    and pm: "penalty_mult (current_asks s1) = penalty_mult (current_asks s)" by blast
  from Cons.IH[OF i] Cons.prems(2) pm obtain s' where "run ops s1 ticks = Inr s'" "run_invariant s'"
    by auto
  with t show ?case by (simp add: x run_Cons bindE_def)
qed

lemma Orchestrator_init_invariant:
  assumes "Orchestrator_init strats cfg = Inr s"
    and "\<bar>inventory_limit (position s)\<bar> < 2 ^ 62" "in_int64 (o_trade_limit s)"
    and "snapshot_period s \<noteq> 0"
  shows "run_invariant s"
proof -
  from assms(1) have "well_formed s \<and> scalars_ok s \<and> sum_list (map abs (pos (position s))) = 0"
    by (elim Orchestrator_init_Inr)
       (simp add: well_formed_def scalars_ok_def sum_list_replicate)
  with assms(2,3,4) show ?thesis by (simp add: run_invariant_def within_bounds_def)
qed

lemma repo_collaborators_return:
  "collaborators_return repo_externals tick_seen (Finite r)"
proof -
  have chk: "check_returns tick_seen strategy_check_long_entry"
    "check_returns tick_seen strategy_check_short_entry"
    "check_returns tick_seen strategy_check_long_exit"
    "check_returns tick_seen strategy_check_short_exit"
    unfolding check_returns_def
    by (auto simp: tick_seen_def strategy_check_long_entry_def strategy_check_short_entry_def
        strategy_check_long_exit_def strategy_check_short_exit_def tp_sl_long_def tp_sl_short_def
        tick_seconds_def tick_price_def bindE_def Let_def split: strategy_class.splits)
  show ?thesis
    unfolding collaborators_return_def
    using chk
    by (simp add: repo_externals_def strategy_update_indicators_def strategy_update_position_def
        strategy_reset_def exact_mul_def tick_seen_def)
qed

text \<open>
  Claim C7 (configuration), as amended. Construction validates none of \<open>inventory_limit\<close>,
  \<open>trade_limit\<close> and \<open>cooldown_period\<close>: \<open>Position.__init__\<close> stores its arguments as
  given; whether \<open>Orchestrator.__init__\<close> raises does not depend on the three values, and
  when it returns it has stored the configured values (or the defaults 100, 100 and 15)
  unchanged, whatever their sign. Nor do such values fail a run later: from an
  orchestrator as constructed, with \<open>|inventory_limit| < 2^62\<close>, \<open>trade_limit\<close> within
  \<open>int64\<close> and a snapshot period other than 0, and with collaborators that return (the
  strategy operations, and a finite penalty product), every run of ticks returns.
\<close>

theorem construction_unchecked:
  "inventory_limit (Position_init n il tr_lim) = il \<and>
   trade_limit (Position_init n il tr_lim) = tr_lim \<and>
   isl (Orchestrator_init strats (with_limits cfg il' tl' cd'))
     = isl (Orchestrator_init strats cfg) \<and>
   (Orchestrator_init strats cfg = Inr s0 \<longrightarrow>
      (\<exists>eng. engine cfg = Some eng \<and>
         inventory_limit (position s0) = dict_get (cfg_inventory_limit eng) 100 \<and>
         o_trade_limit s0 = dict_get (cfg_trade_limit eng) 100 \<and>
         trade_limit (position s0) = dict_get (cfg_trade_limit eng) 100 \<and>
         cooldown_period s0 = dict_get (cfg_cooldown_period eng) 15) \<and>
      (collaborators_return ops ready (penalty_mult (current_asks s0)) \<and>
       snapshot_period s0 \<noteq> 0 \<and>
       \<bar>inventory_limit (position s0)\<bar> < 2 ^ 62 \<and> in_int64 (o_trade_limit s0) \<longrightarrow>
         (\<exists>s'. run ops s0 ticks = Inr s')))"
proof (intro conjI impI)
  show "inventory_limit (Position_init n il tr_lim) = il"
    "trade_limit (Position_init n il tr_lim) = tr_lim"
    by (simp_all add: Position_init_def)
  show "isl (Orchestrator_init strats (with_limits cfg il' tl' cd'))
     = isl (Orchestrator_init strats cfg)" by (rule Orchestrator_init_limits)
next
  assume i: "Orchestrator_init strats cfg = Inr s0"
  then show "\<exists>eng. engine cfg = Some eng \<and>
         inventory_limit (position s0) = dict_get (cfg_inventory_limit eng) 100 \<and>
         o_trade_limit s0 = dict_get (cfg_trade_limit eng) 100 \<and>
         trade_limit (position s0) = dict_get (cfg_trade_limit eng) 100 \<and>
         cooldown_period s0 = dict_get (cfg_cooldown_period eng) 15"
    by (elim Orchestrator_init_Inr) simp
  assume h: "collaborators_return ops ready (penalty_mult (current_asks s0)) \<and>
       snapshot_period s0 \<noteq> 0 \<and>
       \<bar>inventory_limit (position s0)\<bar> < 2 ^ 62 \<and> in_int64 (o_trade_limit s0)"
  then have "run_invariant s0" using Orchestrator_init_invariant[OF i] by blast
  from run_returns[OF this, of ops ready ticks] h show "\<exists>s'. run ops s0 ticks = Inr s'" by blast
qed

lemma ex_unchecked_init:
  "map_sum id (\<lambda>s. (inventory_limit (position s), o_trade_limit s, cooldown_period s,
                     snapshot_period s, penalty_mult (current_asks s)))
     (Orchestrator_init [Strategy_init Strategy_A 1 1] ex_unchecked_cfg)
     = Inr (- 5, 0, - 1, 300, Finite (1 / 2))"
  by (simp add: ex_unchecked_cfg_def with_limits_def engine_defs Let_def)

theorem construction_unchecked_witness:
  "\<exists>s0 s'. Orchestrator_init [Strategy_init Strategy_A 1 1] ex_unchecked_cfg = Inr s0 \<and>
     inventory_limit (position s0) = - 5 \<and> o_trade_limit s0 = 0 \<and> cooldown_period s0 = - 1 \<and>
     collaborators_return repo_externals tick_seen (penalty_mult (current_asks s0)) \<and>
     snapshot_period s0 \<noteq> 0 \<and>
     \<bar>inventory_limit (position s0)\<bar> < 2 ^ 62 \<and> in_int64 (o_trade_limit s0) \<and>
     run repo_externals s0 ex_day_ticks = Inr s'"
proof -
  from map_sum_InrD[OF ex_unchecked_init] obtain s0 where
    s0: "Orchestrator_init [Strategy_init Strategy_A 1 1] ex_unchecked_cfg = Inr s0"
    and v: "inventory_limit (position s0) = - 5" "o_trade_limit s0 = 0" "cooldown_period s0 = - 1"
      "snapshot_period s0 = 300" "penalty_mult (current_asks s0) = Finite (1 / 2)"
    by auto
  have c: "collaborators_return repo_externals tick_seen (penalty_mult (current_asks s0))"
    unfolding v(5) by (rule repo_collaborators_return)
  have b: "snapshot_period s0 \<noteq> 0" "\<bar>inventory_limit (position s0)\<bar> < 2 ^ 62"
    "in_int64 (o_trade_limit s0)"
    using v by (simp_all add: in_int64_def)
  from construction_unchecked[of 1 "- 5" 0 "[Strategy_init Strategy_A 1 1]" ex_unchecked_cfg
      None None None s0 repo_externals tick_seen ex_day_ticks] s0 c b
  obtain s' where "run repo_externals s0 ex_day_ticks = Inr s'" by blast
  with s0 v c b show ?thesis by blast
qed

text \<open>
  Claim C7 as stated fails: with inventory limit -5, trade limit 0 and cooldown -1 the
  construction returns an orchestrator that holds these values.
\<close>

theorem construction_accepts_nonpositive:
  "\<not> isl (Orchestrator_init [Strategy_init Strategy_A 1 1] ex_unchecked_cfg) \<and>
   map_sum id (inventory_limit \<circ> position)
     (Orchestrator_init [Strategy_init Strategy_A 1 1] ex_unchecked_cfg) = Inr (- 5) \<and>
   map_sum id o_trade_limit
     (Orchestrator_init [Strategy_init Strategy_A 1 1] ex_unchecked_cfg) = Inr 0 \<and>
   map_sum id cooldown_period
     (Orchestrator_init [Strategy_init Strategy_A 1 1] ex_unchecked_cfg) = Inr (- 1) \<and>
   inventory_limit (Position_init 1 (- 5) 0) = - 5"
  by (simp add: ex_unchecked_cfg_def with_limits_def engine_defs Let_def)

end
